theory Spec2Isabelle
  imports Complex_Main "HOL-Library.Word"
begin

section \<open>Basic types\<close>

text \<open>
  The header \<^verbatim>\<open>definitions.h\<close> is not among the sources. The code prints \<^verbatim>\<open>SInt\<close> with
  \<^verbatim>\<open>%llu\<close> and sends it as \<^verbatim>\<open>MPI_UNSIGNED_LONG_LONG\<close>, so \<^verbatim>\<open>SInt\<close> is an unsigned 64-bit
  integer: arithmetic wraps modulo \<open>2 ^ 64\<close>, \<open>div\<close> and \<open>mod\<close> are the unsigned ones.
  \<^verbatim>\<open>SSInt\<close> is its signed companion: the same 64 bits, read with \<open>sint\<close> where the code
  compares a signed value with a signed one, and as they stand where C++ converts the
  signed operand to unsigned (every mixed \<^verbatim>\<open>SSInt\<close>/\<^verbatim>\<open>SInt\<close> operation).
  \<^verbatim>\<open>LPFloat\<close> is a floating-point type; the model only ever passes it on to the random
  variate generator, so it is kept as a real number.
  MPI ranks and sizes (\<^verbatim>\<open>PEID\<close>) are non-negative and enter the arithmetic only after
  conversion to \<^verbatim>\<open>SInt\<close>; the model takes them as \<^verbatim>\<open>SInt\<close> values.
\<close>

type_synonym SInt = "64 word"
type_synonym SSInt = "64 word"
type_synonym LPFloat = real
type_synonym PEID = "64 word"

datatype error = DivisionByZero

datatype Direction = Right | Left | Up | Down | Front | Back

datatype OutputFormat = EDGE_LIST | BINARY_EDGE_LIST

text \<open>The fields of \<^verbatim>\<open>PGeneratorConfig\<close> that the modelled code reads or writes.\<close>

record PGeneratorConfig =
  n_conf :: SInt
  k_conf :: SInt
  seed :: SInt
  p_conf :: LPFloat
  self_loops :: bool
  periodic :: bool
  grid_x :: SInt
  grid_y :: SInt
  grid_z :: SInt
  dist_size :: SInt
  output_file :: string
  output_format :: OutputFormat
  output_header :: bool
  output_single_file :: bool

section \<open>Binary edge lists: \<^verbatim>\<open>kagen/io/io.cpp\<close>\<close>

text \<open>
  A binary file is the sequence of 64-bit words written to it (\<^verbatim>\<open>fwrite\<close> of \<^verbatim>\<open>SInt\<close>s in
  the machine's byte order); the file system maps a name to a file's contents. Opening
  or writing a file is taken to succeed.
\<close>

type_synonym EdgeList = "(SInt \<times> SInt) list"
type_synonym VertexRange = "SInt \<times> SInt"
type_synonym files = "string \<Rightarrow> SInt list option"

text \<open>
  Every participant runs the same function, each with its own edge list and vertex
  range. The communicator as one participant sees it: its rank, the number of
  participants, and the arguments with which the other participants run the function,
  which is what they contribute to a collective operation.
\<close>

record MPI_Comm =
  Comm_rank :: PEID
  Comm_size :: PEID
  peer_edges :: "PEID \<Rightarrow> EdgeList"
  peer_range :: "PEID \<Rightarrow> VertexRange"

definition ROOT :: PEID where
  "ROOT = 0"

definition ranks :: "MPI_Comm \<Rightarrow> PEID list" where
  "ranks comm = map of_nat [0 ..< unat (Comm_size comm)]"

text \<open>
  Modelled from the spec: the message-passing runtime is not among the sources. A
  collective operation is one that all participants must call; where only some of them
  enter it (a collective mismatch) the behaviour is undefined, and the model returns
  \<open>CollectiveMismatch\<close>. \<open>entered\<close> tells which ranks enter the operation. Where all do,
  a broadcast delivers the buffer of the root, a reduction with \<^verbatim>\<open>MPI_SUM\<close> the sum of
  all contributions (in 64-bit arithmetic), and a barrier returns.
\<close>

datatype mpi_error = CollectiveMismatch

definition MPI_Bcast ::
    "MPI_Comm \<Rightarrow> (PEID \<Rightarrow> bool) \<Rightarrow> SInt \<Rightarrow> (PEID \<Rightarrow> SInt) \<Rightarrow> PEID \<Rightarrow> mpi_error + SInt" where
  "MPI_Bcast comm entered buffer peer_buffer root_rank =
     (if list_all entered (ranks comm)
      then Inr (if root_rank = Comm_rank comm then buffer else peer_buffer root_rank)
      else Inl CollectiveMismatch)"

definition MPI_Allreduce_SUM ::
    "MPI_Comm \<Rightarrow> (PEID \<Rightarrow> bool) \<Rightarrow> SInt \<Rightarrow> (PEID \<Rightarrow> SInt) \<Rightarrow> mpi_error + SInt" where
  "MPI_Allreduce_SUM comm entered sendbuf peer_sendbuf =
     (if list_all entered (ranks comm)
      then Inr (sum_list (map (\<lambda>r. if r = Comm_rank comm then sendbuf else peer_sendbuf r)
                            (ranks comm)))
      else Inl CollectiveMismatch)"

definition MPI_Barrier :: "MPI_Comm \<Rightarrow> (PEID \<Rightarrow> bool) \<Rightarrow> mpi_error + unit" where
  "MPI_Barrier comm entered =
     (if list_all entered (ranks comm) then Inr () else Inl CollectiveMismatch)"

text \<open>
  \<^verbatim>\<open>FindNumberOfGlobalNodes\<close> broadcasts \<^verbatim>\<open>vertex_range.second\<close> from the last participant,
  \<^verbatim>\<open>FindNumberOfGlobalEdges\<close> sums \<^verbatim>\<open>edges.size()\<close> over the participants.
\<close>

definition FindNumberOfGlobalNodes ::
    "MPI_Comm \<Rightarrow> (PEID \<Rightarrow> bool) \<Rightarrow> VertexRange \<Rightarrow> mpi_error + SInt" where
  "FindNumberOfGlobalNodes comm entered vertex_range =
     (let size' = Comm_size comm;
          first_invalid_node = snd vertex_range
      in MPI_Bcast comm entered first_invalid_node (\<lambda>r. snd (peer_range comm r)) (size' - 1))"

definition FindNumberOfGlobalEdges ::
    "MPI_Comm \<Rightarrow> (PEID \<Rightarrow> bool) \<Rightarrow> EdgeList \<Rightarrow> mpi_error + SInt" where
  "FindNumberOfGlobalEdges comm entered edges =
     (let local_num_edges = of_nat (length edges)
      in MPI_Allreduce_SUM comm entered local_num_edges
           (\<lambda>r. of_nat (length (peer_edges comm r))))"

text \<open>\<^verbatim>\<open>fopen(filename, "ab")\<close> appends to the file, creating it when it is missing.\<close>

definition contents :: "files \<Rightarrow> string \<Rightarrow> SInt list" where
  "contents fs filename = (case fs filename of None \<Rightarrow> [] | Some c \<Rightarrow> c)"

text \<open>
  \<^verbatim>\<open>CreateFile\<close> constructs a \<^verbatim>\<open>BufferedTextOutput\<close> with \<^verbatim>\<open>tag::create\<close>; that class is not
  among the sources. It is taken to leave an empty file of that name.
\<close>

definition CreateFile :: "files \<Rightarrow> string \<Rightarrow> files" where
  "CreateFile fs filename = fs(filename \<mapsto> [])"

text \<open>The loop of \<^verbatim>\<open>AppendBinaryEdgeList\<close>: one \<^verbatim>\<open>fwrite\<close> of two words per edge.\<close>

fun fwrite_edges :: "SInt list \<Rightarrow> EdgeList \<Rightarrow> SInt list" where
  "fwrite_edges fout [] = fout"
| "fwrite_edges fout ((from, to) # edges) = fwrite_edges (fout @ [from + 1, to + 1]) edges"

definition AppendBinaryEdgeList :: "files \<Rightarrow> string \<Rightarrow> EdgeList \<Rightarrow> files" where
  "AppendBinaryEdgeList fs filename edges =
     fs(filename \<mapsto> fwrite_edges (contents fs filename) edges)"

definition AppendBinaryEdgeListHeader ::
    "MPI_Comm \<Rightarrow> (PEID \<Rightarrow> bool) \<Rightarrow> files \<Rightarrow> string \<Rightarrow> bool \<Rightarrow> EdgeList \<Rightarrow> VertexRange
      \<Rightarrow> mpi_error + files" where
  "AppendBinaryEdgeListHeader comm entered fs filename single_file edges vertex_range =
     (case FindNumberOfGlobalNodes comm entered vertex_range of
        Inl e \<Rightarrow> Inl e
      | Inr number_of_nodes \<Rightarrow>
          (case (if single_file then FindNumberOfGlobalEdges comm entered edges
                 else Inr (of_nat (length edges))) of
             Inl e \<Rightarrow> Inl e
           | Inr number_of_edges \<Rightarrow>
               Inr (fs(filename \<mapsto> contents fs filename @ [number_of_nodes] @ [number_of_edges]))))"

text \<open>\<^verbatim>\<open>std::to_string\<close> of a rank: its decimal digits.\<close>

definition digit_char :: "nat \<Rightarrow> char" where
  "digit_char n = char_of (48 + n)"

function to_string_nat :: "nat \<Rightarrow> string" where
  "to_string_nat n =
     (if n < 10 then [digit_char n] else to_string_nat (n div 10) @ [digit_char (n mod 10)])"
  by pat_completeness auto
termination
  by (relation "measure (\<lambda>n. n)") auto

declare to_string_nat.simps [simp del]

definition to_string :: "PEID \<Rightarrow> string" where
  "to_string rank = to_string_nat (unat rank)"

text \<open>
  The loop \<^verbatim>\<open>for (PEID pe = 0; pe < size; ++pe)\<close> of the single-file branch: the
  participant appends in its own turn, and every turn ends in a barrier; between the
  barriers the others do the same to the same file, which this participant's view does
  not show. \<open>arrived\<close> tells which ranks get as far as the loop.
\<close>

function append_turns ::
    "MPI_Comm \<Rightarrow> (PEID \<Rightarrow> bool) \<Rightarrow> files \<Rightarrow> string \<Rightarrow> EdgeList \<Rightarrow> PEID \<Rightarrow> mpi_error + files" where
  "append_turns comm arrived fs filename edges pe =
     (if pe < Comm_size comm
      then
        let fs = (if pe = Comm_rank comm then AppendBinaryEdgeList fs filename edges else fs)
        in case MPI_Barrier comm arrived of
             Inl e \<Rightarrow> Inl e
           | Inr _ \<Rightarrow> append_turns comm arrived fs filename edges (pe + 1)
      else Inr fs)"
  by pat_completeness auto
termination
  by (relation "measure (\<lambda>(comm, arrived, fs, filename, edges, pe).
        unat (Comm_size comm) - unat pe)")
    (simp, simp, unat_arith)

declare append_turns.simps [simp del]

text \<open>
  \<^verbatim>\<open>WriteBinaryEdgeList\<close>. In the single-file branch the call of
  \<^verbatim>\<open>AppendBinaryEdgeListHeader\<close>, and with it the two collectives, stands under
  \<^verbatim>\<open>if (rank == ROOT)\<close>: only the root enters them, and the root gets as far as the loop
  only if they complete. In the other branch every participant makes the call.
\<close>

definition WriteBinaryEdgeList ::
    "MPI_Comm \<Rightarrow> files \<Rightarrow> string \<Rightarrow> bool \<Rightarrow> bool \<Rightarrow> EdgeList \<Rightarrow> VertexRange
      \<Rightarrow> mpi_error + files" where
  "WriteBinaryEdgeList comm fs filename omit_header single_file edges vertex_range =
     (let rank = Comm_rank comm
      in if single_file
         then
           let in_header = (\<lambda>r. r = ROOT);
               in_loop = (\<lambda>r. if r = ROOT then omit_header \<or> list_all in_header (ranks comm)
                               else True)
           in case (if rank = ROOT
                    then let fs = CreateFile fs filename
                         in if \<not> omit_header
                            then AppendBinaryEdgeListHeader comm in_header fs filename True
                                   edges vertex_range
                            else Inr fs
                    else Inr fs) of
                Inl e \<Rightarrow> Inl e
              | Inr fs \<Rightarrow> append_turns comm in_loop fs filename edges 0
         else
           let my_filename = filename @ ''_'' @ to_string rank;
               fs = CreateFile fs my_filename
           in case (if \<not> omit_header
                    then AppendBinaryEdgeListHeader comm (\<lambda>r. True) fs my_filename False
                           edges vertex_range
                    else Inr fs) of
                Inl e \<Rightarrow> Inl e
              | Inr fs \<Rightarrow> Inr (AppendBinaryEdgeList fs my_filename edges))"

section \<open>The edge sink: \<^verbatim>\<open>include/io/generator_io.h\<close>\<close>

record GeneratorIO =
  dist_v :: "SInt list"
  edges :: "(SInt \<times> SInt) list"
  local_num_edges :: SInt

text \<open>The constructor: \<^verbatim>\<open>local_num_edges_(0)\<close> and \<^verbatim>\<open>dist_.resize(config_.dist_size)\<close>.\<close>

definition GeneratorIO_new :: "PGeneratorConfig \<Rightarrow> GeneratorIO" where
  "GeneratorIO_new config =
     \<lparr>dist_v = replicate (unat (dist_size config)) 0, edges = [], local_num_edges = 0\<rparr>"

definition UpdateDist :: "GeneratorIO \<Rightarrow> SInt \<Rightarrow> GeneratorIO" where
  "UpdateDist io node_id =
     (let io1 = (if unat node_id < length (dist_v io)
                 then io\<lparr>dist_v := (dist_v io)[unat node_id := dist_v io ! unat node_id + 1]\<rparr>
                 else io)
      in io1\<lparr>local_num_edges := local_num_edges io1 + 1\<rparr>)"

definition PushEdge :: "GeneratorIO \<Rightarrow> SInt \<Rightarrow> SInt \<Rightarrow> GeneratorIO" where
  "PushEdge io source target =
     io\<lparr>edges := edges io @ [(source, target)], local_num_edges := local_num_edges io + 1\<rparr>"

definition NumEdges :: "GeneratorIO \<Rightarrow> SInt" where
  "NumEdges io =
     (if length (edges io) > 0 then of_nat (length (edges io)) else local_num_edges io div 2)"

text \<open>A run of calls on the sink, in order.\<close>

fun PushEdges :: "GeneratorIO \<Rightarrow> (SInt \<times> SInt) list \<Rightarrow> GeneratorIO" where
  "PushEdges io [] = io"
| "PushEdges io ((source, target) # es) = PushEdges (PushEdge io source target) es"

fun UpdateDists :: "GeneratorIO \<Rightarrow> SInt list \<Rightarrow> GeneratorIO" where
  "UpdateDists io [] = io"
| "UpdateDists io (node_id # ids) = UpdateDists (UpdateDist io node_id) ids"

section \<open>The 3D grid generator: \<^verbatim>\<open>include/generators/grid/grid_3d.h\<close>\<close>

text \<open>
  What the generator takes from files that are not among the sources: the hash
  \<^verbatim>\<open>sampling::Spooky::hash\<close>, the variate \<^verbatim>\<open>RNGWrapper::GenerateBinomial\<close> (a function of its
  three arguments: it reseeds from the hash it is given), the C library's \<^verbatim>\<open>cbrt\<close>
  followed by the truncation to \<^verbatim>\<open>SInt\<close>, and the compile-time switch \<^verbatim>\<open>OUTPUT_EDGES\<close>.
\<close>

record GridEnv =
  hash :: "SInt \<Rightarrow> SInt"
  GenerateBinomial :: "SInt \<Rightarrow> SInt \<Rightarrow> LPFloat \<Rightarrow> SInt"
  cbrt_trunc :: "SInt \<Rightarrow> SInt"
  OUTPUT_EDGES :: bool

text \<open>
  The object. \<open>emitted\<close> records the calls of the edge callback \<^verbatim>\<open>cb_\<close>, in order. The
  members below \<open>emitted\<close> are not initialised by the constructor; \<^verbatim>\<open>Generate()\<close> assigns
  each of them before anything reads it.
\<close>

record Grid3D =
  config :: PGeneratorConfig
  io :: GeneratorIO
  emitted :: "(SInt \<times> SInt) list"
  start_node :: SInt
  end_node :: SInt
  num_nodes :: SInt
  edge_probability :: LPFloat
  total_x :: SInt
  total_y :: SInt
  total_z :: SInt
  total_chunks :: SInt
  chunks_per_dim :: SInt
  x_per_chunk :: SInt
  y_per_chunk :: SInt
  z_per_chunk :: SInt
  remaining_x :: SInt
  remaining_y :: SInt
  remaining_z :: SInt
  vertices_per_chunk :: SInt

text \<open>
  The constructor only copies: \<^verbatim>\<open>config_(config), rng_(config), io_(config), cb_(cb)\<close>, with
  an empty body. The rank argument is unnamed and unused.
\<close>

definition Grid3D_new :: "PGeneratorConfig \<Rightarrow> PEID \<Rightarrow> Grid3D" where
  "Grid3D_new cfg rank =
     \<lparr>config = cfg, io = GeneratorIO_new cfg, emitted = [],
      start_node = 0, end_node = 0, num_nodes = 0, edge_probability = 0,
      total_x = 0, total_y = 0, total_z = 0, total_chunks = 0, chunks_per_dim = 0,
      x_per_chunk = 0, y_per_chunk = 0, z_per_chunk = 0,
      remaining_x = 0, remaining_y = 0, remaining_z = 0, vertices_per_chunk = 0\<rparr>"

subsection \<open>Chunk coding and offsets\<close>

text \<open>
  \<^verbatim>\<open>Decode\<close> divides by \<^verbatim>\<open>chunks_per_dim_\<close>. \<^verbatim>\<open>Generate()\<close> divides by it before it calls
  anything else, so a zero is trapped there (see \<open>Generate\<close>) and never reaches here.
\<close>

definition Decode :: "Grid3D \<Rightarrow> SInt \<Rightarrow> SInt \<times> SInt \<times> SInt" where
  "Decode g id' =
     (id' mod chunks_per_dim g,
      (id' div chunks_per_dim g) mod chunks_per_dim g,
      id' div (chunks_per_dim g * chunks_per_dim g))"

definition Encode :: "Grid3D \<Rightarrow> SInt \<Rightarrow> SInt \<Rightarrow> SInt \<Rightarrow> SInt" where
  "Encode g x y z = x + y * chunks_per_dim g + z * (chunks_per_dim g * chunks_per_dim g)"

definition OffsetForChunk :: "Grid3D \<Rightarrow> SInt \<Rightarrow> SInt" where
  "OffsetForChunk g chunk =
     (let (chunk_x, chunk_y, chunk_z) = Decode g chunk;
          vertex_x = chunk_x * x_per_chunk g + min chunk_x (remaining_x g);
          vertex_y = chunk_y * y_per_chunk g + min chunk_y (remaining_y g);
          vertex_z = chunk_z * z_per_chunk g + min chunk_z (remaining_z g);
          next_vertex_y = (chunk_y + 1) * y_per_chunk g + min (chunk_y + 1) (remaining_y g);
          next_vertex_z = (chunk_z + 1) * z_per_chunk g + min (chunk_z + 1) (remaining_z g);
          upper_cube = total_x g * vertex_y * next_vertex_z;
          frontal_cube = total_x g * total_y g * vertex_z;
          frontal_left_cube = vertex_x * next_vertex_y * next_vertex_z;
          intersect_upper_frontal = total_x g * vertex_y * vertex_z;
          intersect_upper_frontal_left = vertex_x * vertex_y * next_vertex_z;
          intersect_frontal_frontal_left = vertex_x * next_vertex_y * vertex_z;
          intersect_all = vertex_x * vertex_y * vertex_z
      in upper_cube + frontal_cube + frontal_left_cube
           - (intersect_upper_frontal + intersect_upper_frontal_left
                + intersect_frontal_frontal_left)
           + intersect_all)"

text \<open>
  The extents \<^verbatim>\<open>xs\<close>, \<^verbatim>\<open>ys\<close>, \<^verbatim>\<open>zs\<close> of a chunk, as \<^verbatim>\<open>QueryInDirection\<close> and
  \<^verbatim>\<open>LocateVertexInChunk\<close> both compute them from the decoded chunk coordinates.
\<close>

definition chunk_xs :: "Grid3D \<Rightarrow> SInt \<Rightarrow> SInt" where
  "chunk_xs g chunk_x = x_per_chunk g + (if chunk_x < remaining_x g then 1 else 0)"

definition chunk_ys :: "Grid3D \<Rightarrow> SInt \<Rightarrow> SInt" where
  "chunk_ys g chunk_y = y_per_chunk g + (if chunk_y < remaining_y g then 1 else 0)"

definition chunk_zs :: "Grid3D \<Rightarrow> SInt \<Rightarrow> SInt" where
  "chunk_zs g chunk_z = z_per_chunk g + (if chunk_z < remaining_z g then 1 else 0)"

subsection \<open>Directions\<close>

fun DirectionX :: "Direction \<Rightarrow> SSInt" where
  "DirectionX Left = - 1"
| "DirectionX Right = 1"
| "DirectionX _ = 0"

fun DirectionY :: "Direction \<Rightarrow> SSInt" where
  "DirectionY Up = - 1"
| "DirectionY Down = 1"
| "DirectionY _ = 0"

fun DirectionZ :: "Direction \<Rightarrow> SSInt" where
  "DirectionZ Front = - 1"
| "DirectionZ Back = 1"
| "DirectionZ _ = 0"

text \<open>
  \<^verbatim>\<open>local_x < 0\<close> compares signed values; \<^verbatim>\<open>local_x >= xs\<close> has an unsigned right-hand
  side, so C++ compares both as unsigned.
\<close>

definition IsLocalVertex :: "SSInt \<Rightarrow> SSInt \<Rightarrow> SSInt \<Rightarrow> SInt \<Rightarrow> SInt \<Rightarrow> SInt \<Rightarrow> bool" where
  "IsLocalVertex local_x local_y local_z xs ys zs =
     (if sint local_x < 0 \<or> local_x \<ge> xs then False
      else if sint local_y < 0 \<or> local_y \<ge> ys then False
      else if sint local_z < 0 \<or> local_z \<ge> zs then False
      else True)"

definition IsValidChunk :: "Grid3D \<Rightarrow> SSInt \<Rightarrow> SSInt \<Rightarrow> SSInt \<Rightarrow> bool" where
  "IsValidChunk g chunk_x chunk_y chunk_z =
     (if sint chunk_x < 0 \<or> chunk_x \<ge> chunks_per_dim g then False
      else if sint chunk_y < 0 \<or> chunk_y \<ge> chunks_per_dim g then False
      else if sint chunk_z < 0 \<or> chunk_z \<ge> chunks_per_dim g then False
      else True)"

definition LocateVertexInChunk ::
    "Grid3D \<Rightarrow> SInt \<Rightarrow> SInt \<Rightarrow> SInt \<Rightarrow> SInt \<Rightarrow> Direction \<Rightarrow> SInt" where
  "LocateVertexInChunk g chunk local_x local_y local_z direction =
     (let offset = OffsetForChunk g chunk;
          (chunk_x, chunk_y, chunk_z) = Decode g chunk;
          xs = chunk_xs g chunk_x;
          ys = chunk_ys g chunk_y;
          zs = chunk_zs g chunk_z;
          (local_neighbor_x, local_neighbor_y, local_neighbor_z) =
            (case direction of
               Right \<Rightarrow> (0, local_y, local_z)
             | Left \<Rightarrow> (xs - 1, local_y, local_z)
             | Up \<Rightarrow> (local_x, ys - 1, local_z)
             | Down \<Rightarrow> (local_x, 0, local_z)
             | Front \<Rightarrow> (local_x, local_y, zs - 1)
             | Back \<Rightarrow> (local_x, local_y, 0))
      in offset + (local_neighbor_x + local_neighbor_y * xs + local_neighbor_z * (xs * ys)))"

subsection \<open>The per-edge decision\<close>

definition edge_seed :: "Grid3D \<Rightarrow> SInt \<Rightarrow> SInt \<Rightarrow> SInt" where
  "edge_seed g source target =
     min source target * total_y g * total_x g * total_z g + max source target"

definition edge_hash :: "GridEnv \<Rightarrow> Grid3D \<Rightarrow> SInt \<Rightarrow> SInt \<Rightarrow> SInt" where
  "edge_hash env g source target = hash env (seed (config g) + edge_seed g source target)"

definition GenerateEdge :: "GridEnv \<Rightarrow> Grid3D \<Rightarrow> SInt \<Rightarrow> SInt \<Rightarrow> Grid3D" where
  "GenerateEdge env g source target =
     (let h = edge_hash env g source target
      in if GenerateBinomial env h 1 (edge_probability g) \<noteq> 0
         then g\<lparr>emitted := emitted g @ [(source, target)],
                io := (if OUTPUT_EDGES env then PushEdge (io g) source target
                       else UpdateDist (UpdateDist (io g) source) target)\<rparr>
         else g)"

subsection \<open>Neighbour queries\<close>

text \<open>
  The three divisions that compute the local coordinates trap on a zero divisor; the
  model returns \<open>DivisionByZero\<close> there.
\<close>

definition QueryInDirection ::
    "GridEnv \<Rightarrow> Grid3D \<Rightarrow> SInt \<Rightarrow> SInt \<Rightarrow> Direction \<Rightarrow> error + Grid3D" where
  "QueryInDirection env g chunk vertex direction =
     (let offset = OffsetForChunk g chunk;
          local_vertex = vertex - offset;
          (chunk_x, chunk_y, chunk_z) = Decode g chunk;
          xs = chunk_xs g chunk_x;
          ys = chunk_ys g chunk_y;
          zs = chunk_zs g chunk_z
      in if xs = 0 \<or> ys = 0 \<or> xs * ys = 0 then Inl DivisionByZero
         else
           let local_x = local_vertex mod xs;
               local_y = (local_vertex div xs) mod ys;
               local_z = local_vertex div (xs * ys);
               local_neighbor_x = local_x + DirectionX direction;
               local_neighbor_y = local_y + DirectionY direction;
               local_neighbor_z = local_z + DirectionZ direction
           in if IsLocalVertex local_neighbor_x local_neighbor_y local_neighbor_z xs ys zs
              then
                let neighbor_vertex =
                      offset + (local_neighbor_x + local_neighbor_y * xs
                                  + local_neighbor_z * (xs * ys))
                in Inr (GenerateEdge env g vertex neighbor_vertex)
              else
                let neighbor_chunk_x = chunk_x + DirectionX direction;
                    neighbor_chunk_y = chunk_y + DirectionY direction;
                    neighbor_chunk_z = chunk_z + DirectionZ direction;
                    (neighbor_chunk_x, neighbor_chunk_y, neighbor_chunk_z) =
                      (if periodic (config g)
                       then ((neighbor_chunk_x + chunks_per_dim g) mod chunks_per_dim g,
                             (neighbor_chunk_y + chunks_per_dim g) mod chunks_per_dim g,
                             (neighbor_chunk_z + chunks_per_dim g) mod chunks_per_dim g)
                       else (neighbor_chunk_x, neighbor_chunk_y, neighbor_chunk_z))
                in if \<not> IsValidChunk g neighbor_chunk_x neighbor_chunk_y neighbor_chunk_z
                   then Inr g
                   else
                     let neighbor_chunk =
                           Encode g neighbor_chunk_x neighbor_chunk_y neighbor_chunk_z;
                         neighbor_vertex =
                           LocateVertexInChunk g neighbor_chunk local_x local_y local_z
                             direction
                     in Inr (GenerateEdge env g vertex neighbor_vertex))"

definition thenE :: "error + 'a \<Rightarrow> ('a \<Rightarrow> error + 'b) \<Rightarrow> error + 'b" where
  "thenE r f = (case r of Inl e \<Rightarrow> Inl e | Inr x \<Rightarrow> f x)"

definition GenerateEdges :: "GridEnv \<Rightarrow> Grid3D \<Rightarrow> SInt \<Rightarrow> SInt \<Rightarrow> error + Grid3D" where
  "GenerateEdges env g chunk vertex =
     thenE (QueryInDirection env g chunk vertex Right) (\<lambda>g.
     thenE (QueryInDirection env g chunk vertex Left) (\<lambda>g.
     thenE (QueryInDirection env g chunk vertex Up) (\<lambda>g.
     thenE (QueryInDirection env g chunk vertex Down) (\<lambda>g.
     thenE (QueryInDirection env g chunk vertex Front) (\<lambda>g.
     QueryInDirection env g chunk vertex Back)))))"

text \<open>The loop \<^verbatim>\<open>for (SInt i = start_vertex; i < end_vertex; i++)\<close> of \<^verbatim>\<open>GenerateChunk\<close>.\<close>

function GenerateChunk_loop ::
    "GridEnv \<Rightarrow> Grid3D \<Rightarrow> SInt \<Rightarrow> SInt \<Rightarrow> SInt \<Rightarrow> error + Grid3D" where
  "GenerateChunk_loop env g chunk i end_vertex =
     (if i < end_vertex
      then (case GenerateEdges env g chunk i of
              Inl e \<Rightarrow> Inl e
            | Inr g' \<Rightarrow> GenerateChunk_loop env g' chunk (i + 1) end_vertex)
      else Inr g)"
  by pat_completeness auto
termination
  by (relation "measure (\<lambda>(env, g, chunk, i, end_vertex). unat end_vertex - unat i)")
    (simp, simp, unat_arith)

declare GenerateChunk_loop.simps [simp del]

definition GenerateChunk :: "GridEnv \<Rightarrow> Grid3D \<Rightarrow> SInt \<Rightarrow> error + Grid3D" where
  "GenerateChunk env g chunk =
     (let start_vertex = OffsetForChunk g chunk;
          end_vertex = OffsetForChunk g (chunk + 1)
      in GenerateChunk_loop env g chunk start_vertex end_vertex)"

subsection \<open>\<^verbatim>\<open>Generate()\<close>\<close>

text \<open>The chunk range of a participant, from the local variables of \<^verbatim>\<open>Generate()\<close>.\<close>

definition leftover_chunks :: "SInt \<Rightarrow> PEID \<Rightarrow> SInt" where
  "leftover_chunks chunks size' = chunks mod size'"

definition num_chunks :: "SInt \<Rightarrow> PEID \<Rightarrow> PEID \<Rightarrow> SInt" where
  "num_chunks chunks size' rank =
     chunks div size' + (if rank < leftover_chunks chunks size' then 1 else 0)"

definition start_chunk :: "SInt \<Rightarrow> PEID \<Rightarrow> PEID \<Rightarrow> SInt" where
  "start_chunk chunks size' rank =
     rank * num_chunks chunks size' rank
       + (if rank \<ge> leftover_chunks chunks size' then leftover_chunks chunks size' else 0)"

definition end_chunk :: "SInt \<Rightarrow> PEID \<Rightarrow> PEID \<Rightarrow> SInt" where
  "end_chunk chunks size' rank = start_chunk chunks size' rank + num_chunks chunks size' rank"

text \<open>``Init dimensions'' and ``Init chunks''.\<close>

definition InitDimensions :: "GridEnv \<Rightarrow> Grid3D \<Rightarrow> Grid3D" where
  "InitDimensions env g =
     (let g = g\<lparr>total_x := grid_x (config g)\<rparr>;
          g = g\<lparr>total_y := grid_y (config g)\<rparr>;
          g = g\<lparr>total_z := grid_z (config g)\<rparr>;
          g = g\<lparr>config := (config g)\<lparr>n_conf := total_x g * total_y g * total_z g\<rparr>\<rparr>;
          g = g\<lparr>edge_probability := p_conf (config g)\<rparr>;
          g = g\<lparr>total_chunks := k_conf (config g)\<rparr>
      in g\<lparr>chunks_per_dim := cbrt_trunc env (total_chunks g)\<rparr>)"

text \<open>``Chunk distribution'': six divisions by \<^verbatim>\<open>chunks_per_dim_\<close>.\<close>

definition ChunkDistribution :: "Grid3D \<Rightarrow> Grid3D" where
  "ChunkDistribution g =
     (let g = g\<lparr>y_per_chunk := total_y g div chunks_per_dim g\<rparr>;
          g = g\<lparr>remaining_y := total_y g mod chunks_per_dim g\<rparr>;
          g = g\<lparr>x_per_chunk := total_x g div chunks_per_dim g\<rparr>;
          g = g\<lparr>remaining_x := total_x g mod chunks_per_dim g\<rparr>;
          g = g\<lparr>z_per_chunk := total_z g div chunks_per_dim g\<rparr>;
          g = g\<lparr>remaining_z := total_z g mod chunks_per_dim g\<rparr>
      in g\<lparr>vertices_per_chunk := x_per_chunk g * y_per_chunk g * z_per_chunk g\<rparr>)"

definition NodeRange :: "Grid3D \<Rightarrow> SInt \<Rightarrow> SInt \<Rightarrow> Grid3D" where
  "NodeRange g first_chunk last_chunk =
     (let g = g\<lparr>start_node := OffsetForChunk g first_chunk\<rparr>;
          g = g\<lparr>end_node := OffsetForChunk g last_chunk\<rparr>
      in g\<lparr>num_nodes := end_node g - start_node g\<rparr>)"

text \<open>The loop \<^verbatim>\<open>for (SInt i = 0; i < num_chunks; i++) GenerateChunk(start_chunk + i)\<close>.\<close>

function Generate_loop ::
    "GridEnv \<Rightarrow> Grid3D \<Rightarrow> SInt \<Rightarrow> SInt \<Rightarrow> SInt \<Rightarrow> error + Grid3D" where
  "Generate_loop env g first_chunk i count =
     (if i < count
      then (case GenerateChunk env g (first_chunk + i) of
              Inl e \<Rightarrow> Inl e
            | Inr g' \<Rightarrow> Generate_loop env g' first_chunk (i + 1) count)
      else Inr g)"
  by pat_completeness auto
termination
  by (relation "measure (\<lambda>(env, g, first_chunk, i, count). unat count - unat i)")
    (simp, simp, unat_arith)

declare Generate_loop.simps [simp del]

text \<open>
  \<^verbatim>\<open>Generate()\<close>. \<open>size'\<close> and \<open>rank\<close> are what \<^verbatim>\<open>MPI_Comm_size\<close> and \<^verbatim>\<open>MPI_Comm_rank\<close>
  return. The remainder by \<open>size'\<close> and the divisions by \<^verbatim>\<open>chunks_per_dim_\<close> trap on zero.
\<close>

definition Generate :: "GridEnv \<Rightarrow> PEID \<Rightarrow> PEID \<Rightarrow> Grid3D \<Rightarrow> error + Grid3D" where
  "Generate env size' rank g =
     (let g = InitDimensions env g
      in if size' = 0 then Inl DivisionByZero
         else if chunks_per_dim g = 0 then Inl DivisionByZero
         else
           let g = ChunkDistribution g;
               g = NodeRange g (start_chunk (total_chunks g) size' rank)
                     (end_chunk (total_chunks g) size' rank)
           in Generate_loop env g (start_chunk (total_chunks g) size' rank) 0
                (num_chunks (total_chunks g) size' rank))"

definition GetVertexRange :: "Grid3D \<Rightarrow> SInt \<times> SInt" where
  "GetVertexRange g = (start_node g, start_node g + num_nodes g - 1)"

definition NumberOfEdges :: "Grid3D \<Rightarrow> SInt" where
  "NumberOfEdges g = NumEdges (io g)"

section \<open>The library interface: \<^verbatim>\<open>interface/kagen_interface.h\<close>\<close>

text \<open>
  \<^verbatim>\<open>KaGen::SetDefaults\<close> assigns these fields of the configuration (and others that the
  modelled code never reads); \<open>size'\<close> is the number of participants.
\<close>

definition SetDefaults :: "PEID \<Rightarrow> PGeneratorConfig \<Rightarrow> PGeneratorConfig" where
  "SetDefaults size' cfg =
     cfg\<lparr>n_conf := 100, k_conf := size', seed := 1, output_file := ''out'',
         dist_size := 10, p_conf := 0, self_loops := False\<rparr>"

text \<open>
  A configuration object before \<^verbatim>\<open>SetDefaults\<close>. The header that declares it is not among
  the sources; the fields that neither \<^verbatim>\<open>SetDefaults\<close> nor \<^verbatim>\<open>Generate3DGrid\<close> assigns
  get fixed values here.
\<close>

definition blank_config :: PGeneratorConfig where
  "blank_config =
     \<lparr>n_conf = 0, k_conf = 0, seed = 0, p_conf = 0, self_loops = False, periodic = False,
      grid_x = 0, grid_y = 0, grid_z = 0, dist_size = 0, output_file = [],
      output_format = EDGE_LIST, output_header = False, output_single_file = False\<rparr>"

text \<open>\<^verbatim>\<open>KaGen::Generate3DGrid\<close>: ``Update config'', then run the generator.\<close>

definition UpdateConfig3D ::
    "PGeneratorConfig \<Rightarrow> SInt \<Rightarrow> SInt \<Rightarrow> SInt \<Rightarrow> LPFloat \<Rightarrow> bool \<Rightarrow> SInt \<Rightarrow> SInt \<Rightarrow> string
      \<Rightarrow> PGeneratorConfig" where
  "UpdateConfig3D cfg gx gy gz p per k sd out =
     cfg\<lparr>grid_x := gx, grid_y := gy, grid_z := gz, p_conf := p, periodic := per,
         k_conf := (if k = 0 then k_conf cfg else k), seed := sd, output_file := out\<rparr>"


section \<open>Notions used to state the properties\<close>

text \<open>
  The first coordinate of the \<open>i\<close>-th of \<open>D\<close> chunks along an axis of \<open>T\<close> cells, and
  the extent of that chunk: the quotient, and one more for the first \<open>T mod D\<close> chunks.
\<close>

definition axis_start :: "nat \<Rightarrow> nat \<Rightarrow> nat \<Rightarrow> nat" where
  "axis_start T D i = i * (T div D) + min i (T mod D)"

definition axis_extent :: "nat \<Rightarrow> nat \<Rightarrow> nat \<Rightarrow> nat" where
  "axis_extent T D i = T div D + (if i < T mod D then 1 else 0)"

text \<open>
  A grid configuration the generator is meant for: every dimension at least one, and a
  chunk count whose cube root \<^verbatim>\<open>cbrt\<close> returns exactly.
\<close>

definition valid_grid :: "GridEnv \<Rightarrow> PGeneratorConfig \<Rightarrow> bool" where
  "valid_grid env cfg \<longleftrightarrow>
     1 \<le> grid_x cfg \<and> 1 \<le> grid_y cfg \<and> 1 \<le> grid_z cfg
     \<and> cbrt_trunc env (k_conf cfg) \<noteq> 0
     \<and> unat (cbrt_trunc env (k_conf cfg)) ^ 3 = unat (k_conf cfg)"

text \<open>
  What ``Init dimensions'', ``Init chunks'' and ``Chunk distribution'' establish for such a
  configuration, as a property of the object; and that the number of vertices fits in an
  \<^verbatim>\<open>SInt\<close>.
\<close>

definition distributed :: "Grid3D \<Rightarrow> bool" where
  "distributed g \<longleftrightarrow>
     chunks_per_dim g \<noteq> 0
     \<and> unat (chunks_per_dim g) ^ 3 = unat (total_chunks g)
     \<and> x_per_chunk g = total_x g div chunks_per_dim g
     \<and> remaining_x g = total_x g mod chunks_per_dim g
     \<and> y_per_chunk g = total_y g div chunks_per_dim g
     \<and> remaining_y g = total_y g mod chunks_per_dim g
     \<and> z_per_chunk g = total_z g div chunks_per_dim g
     \<and> remaining_z g = total_z g mod chunks_per_dim g
     \<and> total_x g \<noteq> 0 \<and> total_y g \<noteq> 0 \<and> total_z g \<noteq> 0"

definition fits :: "Grid3D \<Rightarrow> bool" where
  "fits g \<longleftrightarrow> unat (total_x g) * unat (total_y g) * unat (total_z g) < 2 ^ 64"

text \<open>
  The neighbour that \<^verbatim>\<open>QueryInDirection\<close> hands to \<^verbatim>\<open>GenerateEdge\<close>, or \<open>None\<close> where it
  returns without an edge; the condition under which its divisions trap; the outcome of
  the Bernoulli trial of \<^verbatim>\<open>GenerateEdge\<close>.
\<close>

definition NeighborVertex :: "Grid3D \<Rightarrow> SInt \<Rightarrow> SInt \<Rightarrow> Direction \<Rightarrow> SInt option" where
  "NeighborVertex g chunk vertex direction =
     (let offset = OffsetForChunk g chunk;
          local_vertex = vertex - offset;
          (chunk_x, chunk_y, chunk_z) = Decode g chunk;
          xs = chunk_xs g chunk_x;
          ys = chunk_ys g chunk_y;
          zs = chunk_zs g chunk_z;
          local_x = local_vertex mod xs;
          local_y = (local_vertex div xs) mod ys;
          local_z = local_vertex div (xs * ys);
          local_neighbor_x = local_x + DirectionX direction;
          local_neighbor_y = local_y + DirectionY direction;
          local_neighbor_z = local_z + DirectionZ direction
      in if IsLocalVertex local_neighbor_x local_neighbor_y local_neighbor_z xs ys zs
         then Some (offset + (local_neighbor_x + local_neighbor_y * xs
                                + local_neighbor_z * (xs * ys)))
         else
           let neighbor_chunk_x = chunk_x + DirectionX direction;
               neighbor_chunk_y = chunk_y + DirectionY direction;
               neighbor_chunk_z = chunk_z + DirectionZ direction;
               (neighbor_chunk_x, neighbor_chunk_y, neighbor_chunk_z) =
                 (if periodic (config g)
                  then ((neighbor_chunk_x + chunks_per_dim g) mod chunks_per_dim g,
                        (neighbor_chunk_y + chunks_per_dim g) mod chunks_per_dim g,
                        (neighbor_chunk_z + chunks_per_dim g) mod chunks_per_dim g)
                  else (neighbor_chunk_x, neighbor_chunk_y, neighbor_chunk_z))
           in if \<not> IsValidChunk g neighbor_chunk_x neighbor_chunk_y neighbor_chunk_z
              then None
              else Some (LocateVertexInChunk g
                           (Encode g neighbor_chunk_x neighbor_chunk_y neighbor_chunk_z)
                           local_x local_y local_z direction))"

definition chunk_traps :: "Grid3D \<Rightarrow> SInt \<Rightarrow> bool" where
  "chunk_traps g chunk =
     (let (chunk_x, chunk_y, chunk_z) = Decode g chunk
      in chunk_xs g chunk_x = 0 \<or> chunk_ys g chunk_y = 0
         \<or> chunk_xs g chunk_x * chunk_ys g chunk_y = 0)"

definition accepted :: "GridEnv \<Rightarrow> Grid3D \<Rightarrow> SInt \<Rightarrow> SInt \<Rightarrow> bool" where
  "accepted env g source target \<longleftrightarrow>
     GenerateBinomial env (edge_hash env g source target) 1 (edge_probability g) \<noteq> 0"

text \<open>Two states of the object that differ at most in the sink and the callback's record.\<close>

definition frame :: "Grid3D \<Rightarrow> Grid3D \<Rightarrow> bool" where
  "frame g g' \<longleftrightarrow> g' = g\<lparr>emitted := emitted g', io := io g'\<rparr>"

text \<open>Two states of the object with the same configuration and the same grid layout.\<close>

definition same_grid :: "Grid3D \<Rightarrow> Grid3D \<Rightarrow> bool" where
  "same_grid g g' \<longleftrightarrow>
     config g' = config g \<and> edge_probability g' = edge_probability g
     \<and> total_x g' = total_x g \<and> total_y g' = total_y g \<and> total_z g' = total_z g
     \<and> total_chunks g' = total_chunks g \<and> chunks_per_dim g' = chunks_per_dim g
     \<and> x_per_chunk g' = x_per_chunk g \<and> y_per_chunk g' = y_per_chunk g
     \<and> z_per_chunk g' = z_per_chunk g \<and> remaining_x g' = remaining_x g
     \<and> remaining_y g' = remaining_y g \<and> remaining_z g' = remaining_z g"

text \<open>What a driver reads from \<^verbatim>\<open>GetVertexRange()\<close> after \<^verbatim>\<open>Generate()\<close> on a new object.\<close>

definition rank_vertex_range :: "GridEnv \<Rightarrow> PGeneratorConfig \<Rightarrow> PEID \<Rightarrow> PEID \<Rightarrow> (SInt \<times> SInt) option" where
  "rank_vertex_range env cfg size' rank =
     (case Generate env size' rank (Grid3D_new cfg rank) of
        Inl e \<Rightarrow> None
      | Inr g \<Rightarrow> Some (GetVertexRange g))"

text \<open>
  The edges that one query, one vertex (its six queries in the order of
  \<^verbatim>\<open>GenerateEdges\<close>), one chunk (its vertices in increasing order) and a run of chunks
  hand to the callback.
\<close>

definition query_edges ::
    "GridEnv \<Rightarrow> Grid3D \<Rightarrow> SInt \<Rightarrow> SInt \<Rightarrow> Direction \<Rightarrow> (SInt \<times> SInt) list" where
  "query_edges env g chunk vertex direction =
     (case NeighborVertex g chunk vertex direction of
        None \<Rightarrow> []
      | Some w \<Rightarrow> if accepted env g vertex w then [(vertex, w)] else [])"

definition vertex_edges :: "GridEnv \<Rightarrow> Grid3D \<Rightarrow> SInt \<Rightarrow> SInt \<Rightarrow> (SInt \<times> SInt) list" where
  "vertex_edges env g chunk vertex =
     concat (map (query_edges env g chunk vertex) [Right, Left, Up, Down, Front, Back])"

definition chunk_edges :: "GridEnv \<Rightarrow> Grid3D \<Rightarrow> SInt \<Rightarrow> (SInt \<times> SInt) list" where
  "chunk_edges env g chunk =
     concat (map (\<lambda>n. vertex_edges env g chunk (of_nat n))
       [unat (OffsetForChunk g chunk) ..< unat (OffsetForChunk g (chunk + 1))])"

definition rank_edges :: "GridEnv \<Rightarrow> Grid3D \<Rightarrow> SInt \<Rightarrow> SInt \<Rightarrow> (SInt \<times> SInt) list" where
  "rank_edges env g first_chunk count =
     concat (map (\<lambda>n. chunk_edges env g (first_chunk + of_nat n)) [0 ..< unat count])"

text \<open>
  Stand-ins for the parts that are not among the sources, used to run the model on
  concrete inputs: the identity as hash, a variate that is exact for the two degenerate
  probabilities (\<open>n\<close> successes for \<open>p \<ge> 1\<close>, none otherwise), and the truncated cube
  root of a chunk count below 64.
\<close>

definition example_env :: GridEnv where
  "example_env =
     \<lparr>hash = (\<lambda>x. x),
      GenerateBinomial = (\<lambda>h n p. if 1 \<le> p then n else 0),
      cbrt_trunc = (\<lambda>k. if k = 0 then 0 else if k < 8 then 1 else if k < 27 then 2 else 3),
      OUTPUT_EDGES = True\<rparr>"

text \<open>
  The C library's \<^verbatim>\<open>cbrt\<close> is not among the sources, and it need not be exact on cubes:
  glibc's returns 14.999999999999998 for 3375.0, which the assignment to the integer
  \<^verbatim>\<open>chunks_per_dim_\<close> truncates to 14. This environment has that value at \<open>15\<^sup>3\<close>.
\<close>

definition libm_env :: GridEnv where
  "libm_env = example_env\<lparr>cbrt_trunc := (\<lambda>k. if k = 3375 then 14 else cbrt_trunc example_env k)\<rparr>"

definition example_grid :: "SInt \<Rightarrow> SInt \<Rightarrow> SInt \<Rightarrow> bool \<Rightarrow> SInt \<Rightarrow> PEID \<Rightarrow> Grid3D" where
  "example_grid gx gy gz per k size' =
     Grid3D_new (UpdateConfig3D (SetDefaults size' blank_config) gx gy gz 1 per k 1 ''out'') 0"

section \<open>The sink's counters\<close>

lemma UpdateDist_dist_length: "length (dist_v (UpdateDist sink node_id)) = length (dist_v sink)"
  by (simp add: UpdateDist_def Let_def)

lemma UpdateDist_edges: "edges (UpdateDist sink node_id) = edges sink"
  by (simp add: UpdateDist_def Let_def)

lemma UpdateDist_local_num_edges:
  "local_num_edges (UpdateDist sink node_id) = local_num_edges sink + 1"
  by (simp add: UpdateDist_def Let_def)

lemma UpdateDists_edges: "edges (UpdateDists sink ids) = edges sink"
  by (induction ids arbitrary: sink) (simp_all add: UpdateDist_edges)

lemma UpdateDists_local_num_edges:
  "local_num_edges (UpdateDists sink ids) = local_num_edges sink + of_nat (length ids)"
  by (induction ids arbitrary: sink) (simp_all add: UpdateDist_local_num_edges)

lemma PushEdges_edges: "edges (PushEdges sink es) = edges sink @ es"
  by (induction sink es rule: PushEdges.induct) (simp_all add: PushEdge_def)

text \<open>
  Claim C10. One call \<^verbatim>\<open>UpdateDist(node_id)\<close> on a sink whose histogram has
  \<^verbatim>\<open>dist_size\<close> entries (as the constructor makes it): below \<^verbatim>\<open>dist_size\<close> the entry of
  \<open>node_id\<close> grows by one and every other entry is kept; at or beyond \<^verbatim>\<open>dist_size\<close>
  the histogram is unchanged; in both cases the histogram keeps its length, the edge list
  is untouched and \<^verbatim>\<open>local_num_edges_\<close> grows by exactly one, so it is what \<^verbatim>\<open>NumEdges()\<close>
  halves in dist mode. All counters are 64-bit and wrap.
\<close>

theorem UpdateDist_frame:
  assumes "length (dist_v sink) = unat (dist_size cfg)"
  shows "(node_id < dist_size cfg \<longrightarrow>
            dist_v (UpdateDist sink node_id) ! unat node_id = dist_v sink ! unat node_id + 1
          \<and> (\<forall>i. i \<noteq> unat node_id \<longrightarrow>
                dist_v (UpdateDist sink node_id) ! i = dist_v sink ! i))
       \<and> (node_id \<ge> dist_size cfg \<longrightarrow> dist_v (UpdateDist sink node_id) = dist_v sink)
       \<and> length (dist_v (UpdateDist sink node_id)) = unat (dist_size cfg)
       \<and> local_num_edges (UpdateDist sink node_id) = local_num_edges sink + 1
       \<and> edges (UpdateDist sink node_id) = edges sink
       \<and> (edges sink = [] \<longrightarrow>
            NumEdges (UpdateDist sink node_id) = (local_num_edges sink + 1) div 2)"
  using assms
  by (auto simp add: UpdateDist_def Let_def NumEdges_def word_less_nat_alt word_le_nat_alt)

theorem UpdateDist_frame_witness:
  "length (dist_v (GeneratorIO_new (SetDefaults 1 blank_config)))
     = unat (dist_size (SetDefaults 1 blank_config))
   \<and> (3 :: SInt) < dist_size (SetDefaults 1 blank_config)
   \<and> dist_v (UpdateDist (GeneratorIO_new (SetDefaults 1 blank_config)) 3) ! unat (3 :: SInt) = 1
   \<and> local_num_edges (UpdateDist (GeneratorIO_new (SetDefaults 1 blank_config)) 3) = 1
   \<and> dist_size (SetDefaults 1 blank_config) \<le> (12 :: SInt)
   \<and> dist_v (UpdateDist (GeneratorIO_new (SetDefaults 1 blank_config)) 12) = replicate 10 0
   \<and> NumEdges (UpdateDist (GeneratorIO_new (SetDefaults 1 blank_config)) 12) = 0"
  using
    UpdateDist_frame [of "GeneratorIO_new (SetDefaults 1 blank_config)"
      "SetDefaults 1 blank_config" 3]
    UpdateDist_frame [of "GeneratorIO_new (SetDefaults 1 blank_config)"
      "SetDefaults 1 blank_config" 12]
  by (simp add: GeneratorIO_new_def SetDefaults_def blank_config_def)

text \<open>
  Claim C6. On a freshly constructed sink, \<^verbatim>\<open>NumEdges()\<close> after a non-empty run of
  \<^verbatim>\<open>PushEdge\<close> calls is the number of calls (the size of the edge list), and after \<open>2 * e\<close>
  calls of \<^verbatim>\<open>UpdateDist\<close>, whatever their arguments, and no \<^verbatim>\<open>PushEdge\<close>, it is \<open>e\<close>. The
  counts are those a 64-bit counter can hold.
\<close>

theorem NumEdges_counts:
  "(es \<noteq> [] \<and> length es < 2 ^ 64 \<longrightarrow>
      unat (NumEdges (PushEdges (GeneratorIO_new cfg) es)) = length es)
   \<and> (length ids = 2 * e \<and> 2 * e < 2 ^ 64 \<longrightarrow>
      unat (NumEdges (UpdateDists (GeneratorIO_new cfg) ids)) = e)"
proof (intro conjI impI)
  assume "es \<noteq> [] \<and> length es < 2 ^ 64"
  then show "unat (NumEdges (PushEdges (GeneratorIO_new cfg) es)) = length es"
    by (simp add: NumEdges_def PushEdges_edges GeneratorIO_new_def unat_of_nat)
next
  assume a: "length ids = 2 * e \<and> 2 * e < 2 ^ 64"
  have "local_num_edges (UpdateDists (GeneratorIO_new cfg) ids) = of_nat (2 * e)"
    using a by (simp add: UpdateDists_local_num_edges GeneratorIO_new_def)
  moreover have "unat (of_nat (2 * e) :: SInt) = 2 * e"
    using a unat_of_nat [of "2 * e", where 'a = 64] by simp
  ultimately show "unat (NumEdges (UpdateDists (GeneratorIO_new cfg) ids)) = e"
    by (simp add: NumEdges_def UpdateDists_edges GeneratorIO_new_def unat_div)
qed

theorem NumEdges_counts_witness:
  "[(0, 1), (1, 0), (1, 2 :: SInt)] \<noteq> [] \<and> length [(0, 1), (1, 0), (1, 2 :: SInt)] < 2 ^ 64
   \<and> unat (NumEdges (PushEdges (GeneratorIO_new (SetDefaults 1 blank_config))
        [(0, 1), (1, 0), (1, 2)])) = 3
   \<and> length [0, 1, 1, 0, 1, 12 :: SInt] = 2 * 3 \<and> 2 * (3 :: nat) < 2 ^ 64
   \<and> unat (NumEdges (UpdateDists (GeneratorIO_new (SetDefaults 1 blank_config))
        [0, 1, 1, 0, 1, 12])) = 3"
  using NumEdges_counts [of "[(0, 1), (1, 0), (1, 2)]" "SetDefaults 1 blank_config"
      "[0, 1, 1, 0, 1, 12]" 3]
  by simp

section \<open>The per-edge decision is symmetric\<close>

text \<open>
  Claim C1. For all vertex ids \<open>u\<close>, \<open>v\<close> and any two states \<open>g\<close>, \<open>g'\<close> of the generator
  (two participants, or one participant at two moments) with the same seed, the same
  dimensions \<open>X\<close>, \<open>Y\<close>, \<open>Z\<close> and the same edge probability: \<^verbatim>\<open>GenerateEdge(u, v)\<close> on \<open>g\<close>
  and \<^verbatim>\<open>GenerateEdge(v, u)\<close> on \<open>g'\<close> compute the same
  \<open>edge_seed = min(u,v) * X * Y * Z + max(u,v)\<close>, hence the same hash
  \<open>h = hash(seed + edge_seed)\<close>; each emits (appends its ordered pair to the callback's
  record) exactly when the variate drawn from \<open>h\<close> is not zero, so one emits exactly when
  the other does. Nothing else of the state enters the decision.
\<close>

theorem GenerateEdge_symmetric:
  assumes "seed (config g') = seed (config g)"
    and "total_x g' = total_x g" and "total_y g' = total_y g" and "total_z g' = total_z g"
    and "edge_probability g' = edge_probability g"
  shows "edge_seed g u v = min u v * total_x g * total_y g * total_z g + max u v
   \<and> edge_hash env g u v
       = hash env (seed (config g)
                    + (min u v * total_x g * total_y g * total_z g + max u v))
   \<and> edge_seed g' v u = edge_seed g u v
   \<and> edge_hash env g' v u = edge_hash env g u v
   \<and> ((emitted (GenerateEdge env g u v) = emitted g @ [(u, v)])
        = (GenerateBinomial env (edge_hash env g u v) 1 (edge_probability g) \<noteq> 0))
   \<and> ((GenerateEdge env g u v = g)
        = (GenerateBinomial env (edge_hash env g u v) 1 (edge_probability g) = 0))
   \<and> ((emitted (GenerateEdge env g u v) = emitted g @ [(u, v)])
        = (emitted (GenerateEdge env g' v u) = emitted g' @ [(v, u)]))
   \<and> ((GenerateEdge env g u v = g) = (GenerateEdge env g' v u = g'))"
proof -
  have s0: "edge_seed g u v = min u v * total_x g * total_y g * total_z g + max u v"
    by (simp add: edge_seed_def mult_ac)
  have h0: "edge_hash env g u v
      = hash env (seed (config g) + (min u v * total_x g * total_y g * total_z g + max u v))"
    by (simp only: edge_hash_def s0)
  have s: "edge_seed g' v u = edge_seed g u v"
    using assms(2-4) by (simp add: edge_seed_def min.commute max.commute)
  have h: "edge_hash env g' v u = edge_hash env g u v"
    using assms(1) by (simp add: edge_hash_def s)
  have e: "emitted (GenerateEdge env s a b) = emitted s @ [(a, b)]
      \<longleftrightarrow> GenerateBinomial env (edge_hash env s a b) 1 (edge_probability s) \<noteq> 0" for s a b
    by (simp add: GenerateEdge_def Let_def)
  have n: "GenerateEdge env s a b = s
      \<longleftrightarrow> GenerateBinomial env (edge_hash env s a b) 1 (edge_probability s) = 0" for s a b
  proof (cases "GenerateBinomial env (edge_hash env s a b) 1 (edge_probability s) = 0")
    case True
    then show ?thesis by (simp add: GenerateEdge_def Let_def)
  next
    case False
    then have "emitted (GenerateEdge env s a b) \<noteq> emitted s"
      using e [of s a b] by simp
    then have "GenerateEdge env s a b \<noteq> s"
      by auto
    with False show ?thesis by simp
  qed
  have e': "(emitted (GenerateEdge env g u v) = emitted g @ [(u, v)])
        = (emitted (GenerateEdge env g' v u) = emitted g' @ [(v, u)])"
    by (simp only: e h assms(5))
  have n': "(GenerateEdge env g u v = g) = (GenerateEdge env g' v u = g')"
    by (simp only: n h assms(5))
  show ?thesis
    using s0 h0 s h e [of g u v] n [of g u v] e' n' by blast
qed

theorem GenerateEdge_symmetric_witness:
  "seed (config ((InitDimensions example_env (example_grid 2 2 2 False 8 2))
                   \<lparr>start_node := 4, emitted := [(4, 5)]\<rparr>))
     = seed (config (InitDimensions example_env (example_grid 2 2 2 False 8 2)))
   \<and> edge_hash example_env (InitDimensions example_env (example_grid 2 2 2 False 8 2)) 3 7
       = 32
   \<and> edge_hash example_env
         ((InitDimensions example_env (example_grid 2 2 2 False 8 2))
            \<lparr>start_node := 4, emitted := [(4, 5)]\<rparr>) 7 3 = 32
   \<and> emitted (GenerateEdge example_env
         (InitDimensions example_env (example_grid 2 2 2 False 8 2)) 3 7) = [(3, 7)]
   \<and> emitted (GenerateEdge example_env
         ((InitDimensions example_env (example_grid 2 2 2 False 8 2))
            \<lparr>start_node := 4, emitted := [(4, 5)]\<rparr>) 7 3) = [(4, 5), (7, 3)]"
  using GenerateEdge_symmetric [of
      "(InitDimensions example_env (example_grid 2 2 2 False 8 2))
         \<lparr>start_node := 4, emitted := [(4, 5)]\<rparr>"
      "InitDimensions example_env (example_grid 2 2 2 False 8 2)"
      3 7 example_env]
  by (simp add: example_grid_def example_env_def Grid3D_new_def UpdateConfig3D_def
      SetDefaults_def blank_config_def InitDimensions_def edge_hash_def edge_seed_def
      GenerateEdge_def PushEdge_def Let_def)

section \<open>Chunks of a participant\<close>

lemma share_bounds:
  fixes K P R q l :: nat
  assumes "K = P * q + l" and "R < P"
  shows "R < l \<Longrightarrow> q + 1 \<le> K"
    and "R < l \<Longrightarrow> R * (q + 1) < K"
    and "R * q + l \<le> K"
    and "(R + 1) * q + min (R + 1) l \<le> K"
proof -
  have a: "R * q \<le> P * q"
    using assms(2) by (intro mult_le_mono1) simp
  have b: "(R + 1) * q \<le> P * q"
    using assms(2) by (intro mult_le_mono1) simp
  have "1 * q \<le> P * q"
    using assms(2) by (intro mult_le_mono1) simp
  then have c: "q \<le> P * q"
    by (simp only: mult_1)
  show "R * q + l \<le> K"
    using a assms(1) by linarith
  have "(R + 1) * q + min (R + 1) l \<le> P * q + l"
    by (rule add_mono [OF b min.cobounded2])
  then show "(R + 1) * q + min (R + 1) l \<le> K"
    by (simp only: assms(1))
  show "q + 1 \<le> K" if "R < l"
    using c that assms(1) by linarith
  have "R * (q + 1) = R * q + R"
    by (simp add: algebra_simps)
  then show "R * (q + 1) < K" if "R < l"
    using a that assms(1) by linarith
qed

lemma unat_num_chunks:
  assumes "0 < P" "rank < P"
  shows "unat (num_chunks k P rank)
           = unat k div unat P + (if unat rank < unat k mod unat P then 1 else 0)"
proof -
  define q l where "q = unat k div unat P" and "l = unat k mod unat P"
  have P: "0 < unat P" and R: "unat rank < unat P"
    using assms by (simp_all add: word_less_nat_alt)
  have K: "unat k = unat P * q + l"
    by (simp add: q_def l_def)
  have lt: "rank < k mod P \<longleftrightarrow> unat rank < l"
    by (simp add: word_less_nat_alt unat_mod l_def)
  have q: "unat (k div P) = q"
    by (simp add: unat_div q_def)
  have k64: "unat k < 2 ^ 64"
    using unsigned_less [of k] by simp
  have "unat (num_chunks k P rank) = q + (if unat rank < l then 1 else 0)"
  proof (cases "unat rank < l")
    case True
    have "unat (k div P) + unat (1 :: SInt) < 2 ^ LENGTH(64)"
      using share_bounds(1) [OF K R True] k64 q by simp
    then have "unat (k div P + 1) = unat (k div P) + unat (1 :: SInt)"
      by (simp only: unat_add_lem)
    then show ?thesis
      using True lt q by (simp add: num_chunks_def leftover_chunks_def)
  next
    case False
    then show ?thesis
      using lt q by (simp add: num_chunks_def leftover_chunks_def)
  qed
  then show ?thesis
    by (simp add: q_def l_def)
qed

lemma unat_start_chunk:
  assumes "0 < P" "rank < P"
  shows "unat (start_chunk k P rank)
           = unat rank * (unat k div unat P) + min (unat rank) (unat k mod unat P)"
proof -
  define q l where "q = unat k div unat P" and "l = unat k mod unat P"
  have P: "0 < unat P" and R: "unat rank < unat P"
    using assms by (simp_all add: word_less_nat_alt)
  have K: "unat k = unat P * q + l"
    by (simp add: q_def l_def)
  have k64: "unat k < 2 ^ 64"
    using unsigned_less [of k] by simp
  have le: "k mod P \<le> rank \<longleftrightarrow> l \<le> unat rank"
    by (simp add: word_le_nat_alt unat_mod l_def)
  have ul: "unat (k mod P) = l"
    by (simp add: unat_mod l_def)
  have n: "unat (num_chunks k P rank) = q + (if unat rank < l then 1 else 0)"
    using unat_num_chunks [OF assms, of k] by (simp add: q_def l_def)
  have "unat (start_chunk k P rank) = unat rank * q + min (unat rank) l"
  proof (cases "unat rank < l")
    case True
    have "unat rank * unat (num_chunks k P rank) < 2 ^ LENGTH(64)"
      using share_bounds(2) [OF K R True] n k64 True by simp
    then have "unat (rank * num_chunks k P rank) = unat rank * unat (num_chunks k P rank)"
      by (simp only: unat_mult_lem)
    then show ?thesis
      using True n le by (simp add: start_chunk_def leftover_chunks_def)
  next
    case False
    have b: "unat rank * q + l \<le> unat k"
      by (rule share_bounds(3) [OF K R])
    then have "unat rank * unat (num_chunks k P rank) < 2 ^ LENGTH(64)"
      using n k64 False by simp
    then have m: "unat (rank * num_chunks k P rank) = unat rank * unat (num_chunks k P rank)"
      by (simp only: unat_mult_lem)
    have "unat (rank * num_chunks k P rank) + unat (k mod P) < 2 ^ LENGTH(64)"
      using m n b k64 False ul by simp
    then have "unat (rank * num_chunks k P rank + k mod P)
        = unat (rank * num_chunks k P rank) + unat (k mod P)"
      by (simp only: unat_add_lem)
    then show ?thesis
      using False m n le ul by (simp add: start_chunk_def leftover_chunks_def)
  qed
  then show ?thesis
    by (simp add: q_def l_def)
qed

lemma unat_end_chunk:
  assumes "0 < P" "rank < P"
  shows "unat (end_chunk k P rank)
           = (unat rank + 1) * (unat k div unat P) + min (unat rank + 1) (unat k mod unat P)
       \<and> unat (end_chunk k P rank) = unat (start_chunk k P rank) + unat (num_chunks k P rank)
       \<and> unat (end_chunk k P rank) \<le> unat k"
proof -
  define q l where "q = unat k div unat P" and "l = unat k mod unat P"
  have P: "0 < unat P" and R: "unat rank < unat P"
    using assms by (simp_all add: word_less_nat_alt)
  have K: "unat k = unat P * q + l"
    by (simp add: q_def l_def)
  have k64: "unat k < 2 ^ 64"
    using unsigned_less [of k] by simp
  have b: "(unat rank + 1) * q + min (unat rank + 1) l \<le> unat k"
    by (rule share_bounds(4) [OF K R])
  have s: "unat (start_chunk k P rank) + unat (num_chunks k P rank)
      = (unat rank + 1) * q + min (unat rank + 1) l"
    by (simp add: unat_start_chunk [OF assms] unat_num_chunks [OF assms] min_def
        flip: q_def l_def)
  then have "unat (start_chunk k P rank) + unat (num_chunks k P rank) < 2 ^ LENGTH(64)"
    using b k64 by simp
  then have "unat (start_chunk k P rank + num_chunks k P rank)
      = unat (start_chunk k P rank) + unat (num_chunks k P rank)"
    by (simp only: unat_add_lem)
  then have "unat (end_chunk k P rank) = unat (start_chunk k P rank) + unat (num_chunks k P rank)"
    by (simp add: end_chunk_def)
  then show ?thesis
    using s b by (simp add: q_def l_def)
qed

lemma start_chunk_next:
  assumes "0 < P" "rank + 1 < P" "rank < P"
  shows "start_chunk k P (rank + 1) = end_chunk k P rank"
proof -
  have "unat (rank + 1) = unat rank + 1"
    using assms(3) by unat_arith
  then have "unat (start_chunk k P (rank + 1)) = unat (end_chunk k P rank)"
    using unat_start_chunk [OF assms(1) assms(2), of k] unat_end_chunk [OF assms(1) assms(3), of k]
    by simp
  then show ?thesis
    by (simp add: word_unat_eq_iff)
qed

lemma end_chunk_last:
  assumes "0 < P" "rank + 1 = P" "rank < P"
  shows "end_chunk k P rank = k"
proof -
  define q l where "q = unat k div unat P" and "l = unat k mod unat P"
  have K: "unat k = unat P * q + l"
    by (simp add: q_def l_def)
  have "unat (rank + 1) = unat rank + 1"
    using assms(3) by unat_arith
  then have "unat rank + 1 = unat P"
    using assms(2) by simp
  moreover have "l < unat P"
    using assms(1) by (simp add: word_less_nat_alt l_def)
  moreover have "unat (end_chunk k P rank) = (unat rank + 1) * q + min (unat rank + 1) l"
    using unat_end_chunk [OF assms(1) assms(3), of k] by (simp add: q_def l_def)
  ultimately have "unat (end_chunk k P rank) = unat k"
    using K by (simp add: min_def)
  then show ?thesis
    by (simp add: word_unat_eq_iff)
qed

text \<open>
  Claim C4, as the code has it. For \<open>P \<ge> 1\<close> participants, \<open>k \<ge> 1\<close> chunks and a rank
  below \<open>P\<close>, the participant owns \<open>num = k div P + (1 if rank < k mod P else 0)\<close>
  chunks, and its first chunk is \<open>rank * num + (k mod P if rank \<ge> k mod P else 0)\<close>, which
  is \<open>rank * (k div P) + min rank (k mod P)\<close>. Nothing wraps around, the ranges of
  consecutive ranks are adjacent, rank 0 starts at chunk 0 and the last rank ends at \<open>k\<close>.
  The formula \<open>rank * num + min rank (k mod P)\<close> of the specification is not the code's: it
  differs for \<open>0 < rank < k mod P\<close>.
\<close>

theorem chunk_assignment:
  assumes "0 < P" and "0 < k" and "rank < P"
  shows "unat (num_chunks k P rank)
           = unat k div unat P + (if unat rank < unat k mod unat P then 1 else 0)
       \<and> start_chunk k P rank
           = rank * num_chunks k P rank + (if rank \<ge> k mod P then k mod P else 0)
       \<and> unat (start_chunk k P rank)
           = unat rank * (unat k div unat P) + min (unat rank) (unat k mod unat P)
       \<and> unat (end_chunk k P rank) = unat (start_chunk k P rank) + unat (num_chunks k P rank)
       \<and> start_chunk k P 0 = 0
       \<and> (rank + 1 < P \<longrightarrow> start_chunk k P (rank + 1) = end_chunk k P rank)
       \<and> (rank + 1 = P \<longrightarrow> end_chunk k P rank = k)"
proof (intro conjI impI)
  show "unat (num_chunks k P rank)
           = unat k div unat P + (if unat rank < unat k mod unat P then 1 else 0)"
    by (rule unat_num_chunks [OF assms(1) assms(3)])
  show "start_chunk k P rank
           = rank * num_chunks k P rank + (if rank \<ge> k mod P then k mod P else 0)"
    by (simp add: start_chunk_def leftover_chunks_def)
  show "unat (start_chunk k P rank)
           = unat rank * (unat k div unat P) + min (unat rank) (unat k mod unat P)"
    by (rule unat_start_chunk [OF assms(1) assms(3)])
  show "unat (end_chunk k P rank) = unat (start_chunk k P rank) + unat (num_chunks k P rank)"
    using unat_end_chunk [OF assms(1) assms(3), of k] by simp
  show "start_chunk k P 0 = 0"
    by (simp add: start_chunk_def leftover_chunks_def)
  show "start_chunk k P (rank + 1) = end_chunk k P rank" if "rank + 1 < P"
    by (rule start_chunk_next [OF assms(1) that assms(3)])
  show "end_chunk k P rank = k" if "rank + 1 = P"
    by (rule end_chunk_last [OF assms(1) that assms(3)])
qed

theorem start_chunk_counterexample:
  "(0 :: SInt) < 3 \<and> (0 :: SInt) < 5 \<and> (1 :: SInt) < 3
   \<and> start_chunk 5 3 1 = 2
   \<and> 1 * num_chunks 5 3 1 + min 1 (5 mod 3) = (3 :: SInt)"
  by (simp add: start_chunk_def num_chunks_def leftover_chunks_def word_le_nat_alt)

theorem chunk_assignment_witness:
  "(0 :: SInt) < 3 \<and> (0 :: SInt) < 5 \<and> (1 :: SInt) < 3
   \<and> unat (num_chunks 5 3 1) = 2 \<and> unat (start_chunk 5 3 1) = 2
   \<and> unat (end_chunk 5 3 1) = 4 \<and> start_chunk 5 3 (1 + 1) = end_chunk 5 3 1"
  using chunk_assignment [of 3 5 1] by (simp add: word_le_nat_alt)

section \<open>Chunk offsets\<close>

lemma axis_start_0: "axis_start T D 0 = 0"
  by (simp add: axis_start_def)

lemma axis_start_Suc: "axis_start T D (Suc i) = axis_start T D i + axis_extent T D i"
  by (simp add: axis_start_def axis_extent_def min_def)

lemma axis_start_full:
  assumes "0 < D"
  shows "axis_start T D D = T"
proof -
  have "T mod D \<le> D"
    using assms by (simp add: less_imp_le)
  then have "min D (T mod D) = T mod D"
    by (rule min.absorb2)
  then show ?thesis
    by (simp add: axis_start_def)
qed

lemma axis_start_mono: "i \<le> j \<Longrightarrow> axis_start T D i \<le> axis_start T D j"
  unfolding axis_start_def by (intro add_mono mult_le_mono1 min.mono) simp_all

lemma axis_start_le: "0 < D \<Longrightarrow> i \<le> D \<Longrightarrow> axis_start T D i \<le> T"
  using axis_start_mono [of i D T D] by (simp add: axis_start_full)

lemma axis_end_le: "0 < D \<Longrightarrow> i < D \<Longrightarrow> axis_start T D i + axis_extent T D i \<le> T"
  using axis_start_le [of D "Suc i" T] by (simp add: axis_start_Suc)

lemma digits_succ:
  fixes C D :: nat
  assumes "0 < D"
  shows "Suc C mod D = (if Suc (C mod D) < D then Suc (C mod D) else 0)"
    and "Suc C div D = (if Suc (C mod D) < D then C div D else Suc (C div D))"
proof -
  have "C mod D < D"
    using assms by simp
  then have "Suc (C mod D) < D \<or> Suc (C mod D) = D"
    by linarith
  then show "Suc C mod D = (if Suc (C mod D) < D then Suc (C mod D) else 0)"
    by (auto simp add: mod_Suc)
  then show "Suc C div D = (if Suc (C mod D) < D then C div D else Suc (C div D))"
    by (auto simp add: div_Suc)
qed

lemma axis_step_word:
  fixes i per rem :: SInt
  assumes "i \<noteq> - 1"
  shows "(i + 1) * per + min (i + 1) rem
           = (i * per + min i rem) + (per + (if i < rem then 1 else 0))"
proof (cases "i < rem")
  case True
  then have "i + 1 \<le> rem"
    by (rule inc_le)
  then have "min (i + 1) rem = i + 1" and "min i rem = i"
    using True by (simp_all add: min.absorb1 less_imp_le)
  then show ?thesis
    using True by (simp add: algebra_simps)
next
  case False
  have "\<not> i + 1 \<le> i"
    using assms by (simp add: inc_less_eq_self_iff_eq)
  then have "i < i + 1"
    by simp
  then have "rem \<le> i + 1" and "rem \<le> i"
    using False by simp_all
  then have "min (i + 1) rem = rem" and "min i rem = rem"
    by (simp_all add: min.absorb2)
  then show ?thesis
    using False by (simp add: algebra_simps)
qed

lemma axis_full_word:
  fixes d T :: SInt
  assumes "d \<noteq> 0"
  shows "d * (T div d) + min d (T mod d) = T"
proof -
  have "T mod d < d"
    using assms by (simp add: word_less_nat_alt unat_mod unat_gt_0)
  then have "min d (T mod d) = T mod d"
    by (simp add: min.absorb2 less_imp_le)
  then show ?thesis
    by (simp add: mult_div_mod_eq)
qed

lemma InitDimensions_fields:
  "total_x (InitDimensions env g) = grid_x (config g)"
  "total_y (InitDimensions env g) = grid_y (config g)"
  "total_z (InitDimensions env g) = grid_z (config g)"
  "total_chunks (InitDimensions env g) = k_conf (config g)"
  "chunks_per_dim (InitDimensions env g) = cbrt_trunc env (k_conf (config g))"
  "edge_probability (InitDimensions env g) = p_conf (config g)"
  "config (InitDimensions env g)
     = (config g)\<lparr>n_conf := grid_x (config g) * grid_y (config g) * grid_z (config g)\<rparr>"
  "emitted (InitDimensions env g) = emitted g"
  "io (InitDimensions env g) = io g"
  by (simp_all add: InitDimensions_def Let_def)

lemma ChunkDistribution_fields:
  "total_x (ChunkDistribution g) = total_x g"
  "total_y (ChunkDistribution g) = total_y g"
  "total_z (ChunkDistribution g) = total_z g"
  "total_chunks (ChunkDistribution g) = total_chunks g"
  "chunks_per_dim (ChunkDistribution g) = chunks_per_dim g"
  "edge_probability (ChunkDistribution g) = edge_probability g"
  "config (ChunkDistribution g) = config g"
  "emitted (ChunkDistribution g) = emitted g"
  "io (ChunkDistribution g) = io g"
  "x_per_chunk (ChunkDistribution g) = total_x g div chunks_per_dim g"
  "remaining_x (ChunkDistribution g) = total_x g mod chunks_per_dim g"
  "y_per_chunk (ChunkDistribution g) = total_y g div chunks_per_dim g"
  "remaining_y (ChunkDistribution g) = total_y g mod chunks_per_dim g"
  "z_per_chunk (ChunkDistribution g) = total_z g div chunks_per_dim g"
  "remaining_z (ChunkDistribution g) = total_z g mod chunks_per_dim g"
  by (simp_all add: ChunkDistribution_def Let_def)

lemma valid_grid_distributed:
  assumes "valid_grid env (config g0)"
  shows "distributed (ChunkDistribution (InitDimensions env g0))"
  using assms
  by (auto simp add: valid_grid_def distributed_def ChunkDistribution_fields
      InitDimensions_fields)

text \<open>The chunk coordinates as numbers.\<close>

lemma cube_bounds:
  fixes D :: nat
  assumes "0 < D" and "D ^ 3 < M"
  shows "D * D < M" and "D < M"
proof -
  have "D * D * 1 \<le> D * D * D"
    using assms(1) by (intro mult_le_mono2) simp
  then have a: "D * D \<le> D ^ 3"
    by (simp add: power3_eq_cube)
  then show "D * D < M"
    using assms(2) by simp
  have "D * 1 \<le> D * D"
    using assms(1) by (intro mult_le_mono2) simp
  then have "D \<le> D * D"
    by (simp only: mult_1_right)
  then show "D < M"
    using a assms(2) by linarith
qed

lemma unat_Decode:
  assumes "distributed g"
  shows "unat (fst (Decode g c)) = unat c mod unat (chunks_per_dim g)"
    and "unat (fst (snd (Decode g c)))
           = (unat c div unat (chunks_per_dim g)) mod unat (chunks_per_dim g)"
    and "unat (snd (snd (Decode g c)))
           = (unat c div unat (chunks_per_dim g)) div unat (chunks_per_dim g)"
proof -
  let ?D = "unat (chunks_per_dim g)"
  have D: "0 < ?D"
    using assms by (simp add: distributed_def unat_gt_0)
  have "?D ^ 3 < 2 ^ LENGTH(64)"
    using assms unsigned_less [of "total_chunks g"] by (simp add: distributed_def)
  then have "?D * ?D < 2 ^ LENGTH(64)"
    by (rule cube_bounds(1) [OF D])
  then have dd: "unat (chunks_per_dim g * chunks_per_dim g) = ?D * ?D"
    by (simp only: unat_mult_lem)
  show "unat (fst (Decode g c)) = unat c mod ?D"
    by (simp add: Decode_def unat_mod)
  show "unat (fst (snd (Decode g c))) = (unat c div ?D) mod ?D"
    by (simp add: Decode_def unat_mod unat_div)
  show "unat (snd (snd (Decode g c))) = (unat c div ?D) div ?D"
    by (simp add: Decode_def unat_div dd div_mult2_eq)
qed

lemma Decode_less:
  assumes "distributed g"
  shows "fst (Decode g c) < chunks_per_dim g"
    and "fst (snd (Decode g c)) < chunks_per_dim g"
    and "c < total_chunks g \<Longrightarrow> snd (snd (Decode g c)) < chunks_per_dim g"
proof -
  let ?D = "unat (chunks_per_dim g)"
  have D: "0 < ?D"
    using assms by (simp add: distributed_def unat_gt_0)
  show "fst (Decode g c) < chunks_per_dim g"
    using D by (simp add: word_less_nat_alt unat_Decode [OF assms])
  show "fst (snd (Decode g c)) < chunks_per_dim g"
    using D by (simp add: word_less_nat_alt unat_Decode [OF assms])
  show "snd (snd (Decode g c)) < chunks_per_dim g" if "c < total_chunks g"
  proof -
    have "unat c < ?D ^ 3"
      using that assms by (simp add: distributed_def word_less_nat_alt)
    then have "unat c < ?D * (?D * ?D)"
      by (simp add: power3_eq_cube mult.assoc)
    then have "unat c div (?D * ?D) < ?D"
      using D by (simp add: less_mult_imp_div_less mult.commute)
    then show ?thesis
      by (simp add: word_less_nat_alt unat_Decode [OF assms] div_mult2_eq)
  qed
qed

lemma Decode_total_chunks:
  assumes "distributed g"
  shows "Decode g (total_chunks g) = (0, 0, chunks_per_dim g)"
proof -
  let ?D = "unat (chunks_per_dim g)"
  have D: "0 < ?D"
    using assms by (simp add: distributed_def unat_gt_0)
  have K: "unat (total_chunks g) = ?D * ?D * ?D"
    using assms by (simp add: distributed_def power3_eq_cube)
  have "unat (fst (Decode g (total_chunks g))) = 0"
    by (simp add: unat_Decode [OF assms] K)
  moreover have "unat (fst (snd (Decode g (total_chunks g)))) = 0"
    using D by (simp add: unat_Decode [OF assms] K)
  moreover have "unat (snd (snd (Decode g (total_chunks g)))) = ?D"
    using D by (simp add: unat_Decode [OF assms] K)
  ultimately show ?thesis
    by (simp add: prod_eq_iff word_unat_eq_iff)
qed

lemma Decode_succ:
  assumes "distributed g" and "c < total_chunks g" and "Decode g c = (cx, cy, cz)"
  shows "Decode g (c + 1)
           = (if cx + 1 < chunks_per_dim g then (cx + 1, cy, cz)
              else if cy + 1 < chunks_per_dim g then (0, cy + 1, cz)
              else (0, 0, cz + 1))"
proof -
  let ?D = "unat (chunks_per_dim g)"
  let ?C = "unat c"
  have D: "0 < ?D"
    using assms(1) by (simp add: distributed_def unat_gt_0)
  have c1: "unat (c + 1) = Suc ?C"
    using assms(2) by unat_arith
  have x: "unat cx = ?C mod ?D" and y: "unat cy = (?C div ?D) mod ?D"
    and z: "unat cz = (?C div ?D) div ?D"
    using unat_Decode [OF assms(1), of c] assms(3) by simp_all
  have lx: "cx < chunks_per_dim g" and ly: "cy < chunks_per_dim g"
    and lz: "cz < chunks_per_dim g"
    using Decode_less [OF assms(1), of c] assms(2,3) by simp_all
  have x1: "unat (cx + 1) = Suc (unat cx)" and y1: "unat (cy + 1) = Suc (unat cy)"
    and z1: "unat (cz + 1) = Suc (unat cz)"
    using lx ly lz by unat_arith+
  have ltx: "cx + 1 < chunks_per_dim g \<longleftrightarrow> Suc (?C mod ?D) < ?D"
    by (simp add: word_less_nat_alt x1 x)
  have lty: "cy + 1 < chunks_per_dim g \<longleftrightarrow> Suc ((?C div ?D) mod ?D) < ?D"
    by (simp add: word_less_nat_alt y1 y)
  have "unat (fst (Decode g (c + 1)))
      = unat (fst (if cx + 1 < chunks_per_dim g then (cx + 1, cy, cz)
              else if cy + 1 < chunks_per_dim g then (0, cy + 1, cz)
              else (0, 0, cz + 1)))"
    using D by (simp add: unat_Decode [OF assms(1)] c1 digits_succ ltx lty x1 x)
  moreover have "unat (fst (snd (Decode g (c + 1))))
      = unat (fst (snd (if cx + 1 < chunks_per_dim g then (cx + 1, cy, cz)
              else if cy + 1 < chunks_per_dim g then (0, cy + 1, cz)
              else (0, 0, cz + 1))))"
    using D by (simp add: unat_Decode [OF assms(1)] c1 digits_succ ltx lty y1 y)
  moreover have "unat (snd (snd (Decode g (c + 1))))
      = unat (snd (snd (if cx + 1 < chunks_per_dim g then (cx + 1, cy, cz)
              else if cy + 1 < chunks_per_dim g then (0, cy + 1, cz)
              else (0, 0, cz + 1))))"
    using D by (simp add: unat_Decode [OF assms(1)] c1 digits_succ ltx lty z1 z)
  ultimately show ?thesis
    by (simp only: prod_eq_iff word_unat_eq_iff)
qed

text \<open>The inclusion-exclusion sum of \<open>OffsetForChunk\<close>, added up.\<close>

lemma incl_excl:
  fixes X Y vx vy vz ys zs :: SInt
  shows "X * vy * (vz + zs) + X * Y * vz + vx * (vy + ys) * (vz + zs)
           - (X * vy * vz + vx * vy * (vz + zs) + vx * (vy + ys) * vz) + vx * vy * vz
         = X * Y * vz + X * vy * zs + vx * ys * zs"
  by (simp add: algebra_simps)

lemma OffsetForChunk_closed:
  assumes "Decode g c = (cx, cy, cz)" and "cy \<noteq> - 1" and "cz \<noteq> - 1"
  shows "OffsetForChunk g c
           = total_x g * total_y g * (cz * z_per_chunk g + min cz (remaining_z g))
             + total_x g * (cy * y_per_chunk g + min cy (remaining_y g)) * chunk_zs g cz
             + (cx * x_per_chunk g + min cx (remaining_x g)) * chunk_ys g cy * chunk_zs g cz"
proof -
  have y: "(cy + 1) * y_per_chunk g + min (cy + 1) (remaining_y g)
      = (cy * y_per_chunk g + min cy (remaining_y g)) + chunk_ys g cy"
    by (simp only: axis_step_word [OF assms(2)] chunk_ys_def)
  have z: "(cz + 1) * z_per_chunk g + min (cz + 1) (remaining_z g)
      = (cz * z_per_chunk g + min cz (remaining_z g)) + chunk_zs g cz"
    by (simp only: axis_step_word [OF assms(3)] chunk_zs_def)
  show ?thesis
    by (simp only: OffsetForChunk_def assms(1) Let_def prod.case y z incl_excl)
qed

lemma OffsetForChunk_corner:
  assumes "Decode g c = (0, 0, cz)"
  shows "OffsetForChunk g c
           = total_x g * total_y g * (cz * z_per_chunk g + min cz (remaining_z g))"
  by (simp add: OffsetForChunk_def assms Let_def)

lemma not_minus_one:
  fixes i d :: SInt
  assumes "i < d"
  shows "i \<noteq> - 1"
proof
  assume "i = - 1"
  then have "d \<le> i"
    by simp
  with assms show False
    by simp
qed

lemma OffsetForChunk_step:
  assumes "distributed g" and "c < total_chunks g" and "Decode g c = (cx, cy, cz)"
  shows "OffsetForChunk g (c + 1)
           = OffsetForChunk g c + chunk_xs g cx * chunk_ys g cy * chunk_zs g cz"
proof -
  let ?d = "chunks_per_dim g"
  have d: "?d \<noteq> 0"
    using assms(1) by (simp add: distributed_def)
  have lx: "cx < ?d" and ly: "cy < ?d" and lz: "cz < ?d"
    using Decode_less [OF assms(1), of c] assms(2,3) by simp_all
  have nx: "cx \<noteq> - 1" and ny: "cy \<noteq> - 1" and nz: "cz \<noteq> - 1"
    using lx ly lz by (simp_all add: not_minus_one)
  have per: "x_per_chunk g = total_x g div ?d" "remaining_x g = total_x g mod ?d"
    "y_per_chunk g = total_y g div ?d" "remaining_y g = total_y g mod ?d"
    "z_per_chunk g = total_z g div ?d" "remaining_z g = total_z g mod ?d"
    using assms(1) by (simp_all add: distributed_def)
  have X: "total_x g = ?d * x_per_chunk g + min ?d (remaining_x g)"
    and Y: "total_y g = ?d * y_per_chunk g + min ?d (remaining_y g)"
    by (simp_all only: per axis_full_word [OF d])
  note cl = OffsetForChunk_closed [OF assms(3) ny nz]
  note sx = axis_step_word [OF nx, of "x_per_chunk g" "remaining_x g"]
  note sy = axis_step_word [OF ny, of "y_per_chunk g" "remaining_y g"]
  note sz = axis_step_word [OF nz, of "z_per_chunk g" "remaining_z g"]
  consider (a) "cx + 1 < ?d"
    | (b) "\<not> cx + 1 < ?d" "cy + 1 < ?d"
    | (c) "\<not> cx + 1 < ?d" "\<not> cy + 1 < ?d"
    by blast
  then show ?thesis
  proof cases
    case a
    then have dec: "Decode g (c + 1) = (cx + 1, cy, cz)"
      using Decode_succ [OF assms] by simp
    show ?thesis
      unfolding OffsetForChunk_closed [OF dec ny nz] cl sx
      by (simp add: chunk_xs_def algebra_simps)
  next
    case b
    then have dec: "Decode g (c + 1) = (0, cy + 1, cz)"
      using Decode_succ [OF assms] by simp
    have e: "cx + 1 = ?d"
      using b(1) lx inc_le [OF lx] by simp
    have ny1: "cy + 1 \<noteq> - 1"
      using b(2) by (rule not_minus_one)
    have X': "total_x g = (cx * x_per_chunk g + min cx (remaining_x g)) + chunk_xs g cx"
      using X sx by (simp add: e chunk_xs_def)
    show ?thesis
      unfolding OffsetForChunk_closed [OF dec ny1 nz] cl sy
      by (subst (1 2) X') (simp add: chunk_ys_def algebra_simps)
  next
    case c
    then have dec: "Decode g (c + 1) = (0, 0, cz + 1)"
      using Decode_succ [OF assms] by simp
    have e: "cx + 1 = ?d" "cy + 1 = ?d"
      using c lx ly inc_le [OF lx] inc_le [OF ly] by simp_all
    have X': "total_x g = (cx * x_per_chunk g + min cx (remaining_x g)) + chunk_xs g cx"
      using X sx by (simp add: e chunk_xs_def)
    have Y': "total_y g = (cy * y_per_chunk g + min cy (remaining_y g)) + chunk_ys g cy"
      using Y sy by (simp add: e chunk_ys_def)
    show ?thesis
      unfolding OffsetForChunk_corner [OF dec] cl sz
      by (subst (1 2 3) X', subst (1 2) Y') (simp add: chunk_zs_def algebra_simps)
  qed
qed

lemma OffsetForChunk_total:
  assumes "distributed g"
  shows "OffsetForChunk g (total_chunks g) = total_x g * total_y g * total_z g"
proof -
  let ?d = "chunks_per_dim g"
  have d: "?d \<noteq> 0"
    using assms(1) by (simp add: distributed_def)
  have per: "z_per_chunk g = total_z g div ?d" "remaining_z g = total_z g mod ?d"
    using assms(1) by (simp_all add: distributed_def)
  have Z: "?d * z_per_chunk g + min ?d (remaining_z g) = total_z g"
    by (simp only: per axis_full_word [OF d])
  show ?thesis
    by (simp only: OffsetForChunk_corner [OF Decode_total_chunks [OF assms]] Z)
qed

lemma OffsetForChunk_0: "chunks_per_dim g \<noteq> 0 \<Longrightarrow> OffsetForChunk g 0 = 0"
  by (simp add: OffsetForChunk_def Decode_def Let_def)

lemma unat_lt_64: "unat (w :: SInt) < 2 ^ 64"
  using unsigned_less [of w, where 'a = nat] by simp

lemma unat_of_nat_small:
  "N < 2 ^ 64 \<Longrightarrow> unat (of_nat N :: SInt) = N"
  using unat_of_nat [of N, where 'a = 64] by simp

lemma unat_min_word: "unat (min a b) = min (unat a) (unat b)" for a b :: SInt
  by (simp add: min_def word_le_nat_alt)

lemma unat_axis_start:
  fixes d T i :: SInt
  assumes "d \<noteq> 0" and "i \<le> d"
  shows "unat (i * (T div d) + min i (T mod d)) = axis_start (unat T) (unat d) (unat i)"
proof -
  let ?N = "axis_start (unat T) (unat d) (unat i)"
  have D: "0 < unat d" and I: "unat i \<le> unat d"
    using assms by (simp_all add: unat_gt_0 word_le_nat_alt)
  have "?N \<le> unat T"
    by (rule axis_start_le [OF D I])
  then have small: "?N < 2 ^ 64"
    using unat_lt_64 [of T] by linarith
  have "i * (T div d) + min i (T mod d)
      = of_nat (unat i) * of_nat (unat (T div d)) + of_nat (unat (min i (T mod d)))"
    by simp
  also have "\<dots> = of_nat ?N"
    by (simp only: axis_start_def unat_div unat_mod unat_min_word of_nat_add of_nat_mult)
  finally show ?thesis
    by (simp only: unat_of_nat_small [OF small])
qed

lemma unat_axis_extent:
  fixes d T i :: SInt
  assumes "d \<noteq> 0"
  shows "unat (T div d + (if i < T mod d then 1 else 0))
           = axis_extent (unat T) (unat d) (unat i)"
proof (cases "i < T mod d")
  case True
  define q l where "q = unat T div unat d" and "l = unat T mod unat d"
  have T: "unat T = unat d * q + l"
    by (simp add: q_def l_def)
  have D: "0 < unat d"
    using assms by (simp add: unat_gt_0)
  have l: "unat i < l"
    using True by (simp add: word_less_nat_alt unat_mod l_def)
  have "q \<le> unat d * q"
    using D by simp
  then have "q + 1 \<le> unat T"
    using T l by linarith
  then have "unat (T div d) + unat (1 :: SInt) < 2 ^ LENGTH(64)"
    using unat_lt_64 [of T] by (simp add: unat_div q_def)
  then have "unat (T div d + 1) = unat (T div d) + unat (1 :: SInt)"
    by (simp only: unat_add_lem)
  then show ?thesis
    using True l by (simp add: axis_extent_def unat_div l_def)
next
  case False
  then show ?thesis
    by (simp add: axis_extent_def unat_div word_less_nat_alt unat_mod)
qed

lemma cells_bound:
  fixes X Y Z VX XS VY YS VZ ZS :: nat
  assumes "VX + XS \<le> X" and "VY + YS \<le> Y" and "VZ + ZS \<le> Z"
  shows "X * Y * VZ + X * VY * ZS + VX * YS * ZS + XS * YS * ZS \<le> X * Y * Z"
proof -
  have "VX * YS * ZS + XS * YS * ZS = (VX + XS) * (YS * ZS)"
    by (simp add: algebra_simps)
  also have "\<dots> \<le> X * (YS * ZS)"
    using assms(1) by (rule mult_le_mono1)
  finally have a: "VX * YS * ZS + XS * YS * ZS \<le> X * YS * ZS"
    by (simp add: mult.assoc)
  have "X * VY * ZS + X * YS * ZS = X * ((VY + YS) * ZS)"
    by (simp add: algebra_simps)
  also have "\<dots> \<le> X * (Y * ZS)"
    using assms(2) by (intro mult_le_mono2 mult_le_mono1)
  finally have b: "X * VY * ZS + X * YS * ZS \<le> X * Y * ZS"
    by (simp add: mult.assoc)
  have "X * Y * VZ + X * Y * ZS = X * Y * (VZ + ZS)"
    by (simp add: algebra_simps)
  also have "\<dots> \<le> X * Y * Z"
    using assms(3) by (rule mult_le_mono2)
  finally have c: "X * Y * VZ + X * Y * ZS \<le> X * Y * Z" .
  show ?thesis
    using a b c by linarith
qed

lemma unat_chunk_extents:
  assumes "distributed g"
  shows "unat (chunk_xs g i) = axis_extent (unat (total_x g)) (unat (chunks_per_dim g)) (unat i)"
    and "unat (chunk_ys g i) = axis_extent (unat (total_y g)) (unat (chunks_per_dim g)) (unat i)"
    and "unat (chunk_zs g i) = axis_extent (unat (total_z g)) (unat (chunks_per_dim g)) (unat i)"
proof -
  have d: "chunks_per_dim g \<noteq> 0"
    using assms by (simp add: distributed_def)
  have per: "x_per_chunk g = total_x g div chunks_per_dim g"
    "remaining_x g = total_x g mod chunks_per_dim g"
    "y_per_chunk g = total_y g div chunks_per_dim g"
    "remaining_y g = total_y g mod chunks_per_dim g"
    "z_per_chunk g = total_z g div chunks_per_dim g"
    "remaining_z g = total_z g mod chunks_per_dim g"
    using assms by (simp_all add: distributed_def)
  show "unat (chunk_xs g i)
      = axis_extent (unat (total_x g)) (unat (chunks_per_dim g)) (unat i)"
    by (simp only: chunk_xs_def per unat_axis_extent [OF d])
  show "unat (chunk_ys g i)
      = axis_extent (unat (total_y g)) (unat (chunks_per_dim g)) (unat i)"
    by (simp only: chunk_ys_def per unat_axis_extent [OF d])
  show "unat (chunk_zs g i)
      = axis_extent (unat (total_z g)) (unat (chunks_per_dim g)) (unat i)"
    by (simp only: chunk_zs_def per unat_axis_extent [OF d])
qed

lemma unat_OffsetForChunk:
  assumes "distributed g" and "fits g" and "c < total_chunks g"
    and "Decode g c = (cx, cy, cz)"
  defines "D \<equiv> unat (chunks_per_dim g)"
  defines "X \<equiv> unat (total_x g)" and "Y \<equiv> unat (total_y g)" and "Z \<equiv> unat (total_z g)"
  shows "unat (OffsetForChunk g c)
           = X * Y * axis_start Z D (unat cz)
             + X * axis_start Y D (unat cy) * axis_extent Z D (unat cz)
             + axis_start X D (unat cx) * axis_extent Y D (unat cy) * axis_extent Z D (unat cz)"
    and "unat (OffsetForChunk g c)
           + axis_extent X D (unat cx) * axis_extent Y D (unat cy) * axis_extent Z D (unat cz)
         \<le> X * Y * Z"
proof -
  let ?d = "chunks_per_dim g"
  have d: "?d \<noteq> 0"
    using assms(1) by (simp add: distributed_def)
  have Dpos: "0 < D"
    using d by (simp add: D_def unat_gt_0)
  have lx: "cx < ?d" and ly: "cy < ?d" and lz: "cz < ?d"
    using Decode_less [OF assms(1), of c] assms(3,4) by simp_all
  have ny: "cy \<noteq> - 1" and nz: "cz \<noteq> - 1"
    using ly lz by (simp_all add: not_minus_one)
  have per: "x_per_chunk g = total_x g div ?d" "remaining_x g = total_x g mod ?d"
    "y_per_chunk g = total_y g div ?d" "remaining_y g = total_y g mod ?d"
    "z_per_chunk g = total_z g div ?d" "remaining_z g = total_z g mod ?d"
    using assms(1) by (simp_all add: distributed_def)
  define VX VY VZ where "VX = axis_start X D (unat cx)" and "VY = axis_start Y D (unat cy)"
    and "VZ = axis_start Z D (unat cz)"
  define XS YS ZS where "XS = axis_extent X D (unat cx)" and "YS = axis_extent Y D (unat cy)"
    and "ZS = axis_extent Z D (unat cz)"
  have vx: "unat (cx * x_per_chunk g + min cx (remaining_x g)) = VX"
    and vy: "unat (cy * y_per_chunk g + min cy (remaining_y g)) = VY"
    and vz: "unat (cz * z_per_chunk g + min cz (remaining_z g)) = VZ"
    using lx ly lz
    by (simp_all only: per unat_axis_start [OF d] less_imp_le VX_def VY_def VZ_def
        X_def Y_def Z_def D_def)
  have ys: "unat (chunk_ys g cy) = YS" and zs: "unat (chunk_zs g cz) = ZS"
    by (simp_all only: unat_chunk_extents [OF assms(1)] YS_def ZS_def Y_def Z_def D_def)
  have bx: "VX + XS \<le> X" and by': "VY + YS \<le> Y" and bz: "VZ + ZS \<le> Z"
    using lx ly lz Dpos
    by (simp_all add: VX_def VY_def VZ_def XS_def YS_def ZS_def axis_end_le
        word_less_nat_alt D_def)
  have bound: "X * Y * VZ + X * VY * ZS + VX * YS * ZS + XS * YS * ZS \<le> X * Y * Z"
    by (rule cells_bound [OF bx by' bz])
  then have small: "X * Y * VZ + X * VY * ZS + VX * YS * ZS < 2 ^ 64"
    using assms(2) by (simp add: fits_def X_def Y_def Z_def)
  have "OffsetForChunk g c
      = of_nat (unat (total_x g)) * of_nat (unat (total_y g))
          * of_nat (unat (cz * z_per_chunk g + min cz (remaining_z g)))
        + of_nat (unat (total_x g))
          * of_nat (unat (cy * y_per_chunk g + min cy (remaining_y g)))
          * of_nat (unat (chunk_zs g cz))
        + of_nat (unat (cx * x_per_chunk g + min cx (remaining_x g)))
          * of_nat (unat (chunk_ys g cy)) * of_nat (unat (chunk_zs g cz))"
    by (simp add: OffsetForChunk_closed [OF assms(4) ny nz])
  also have "\<dots> = of_nat (X * Y * VZ + X * VY * ZS + VX * YS * ZS)"
    by (simp only: vx vy vz ys zs of_nat_add of_nat_mult X_def Y_def)
  finally have "unat (OffsetForChunk g c) = X * Y * VZ + X * VY * ZS + VX * YS * ZS"
    by (simp only: unat_of_nat_small [OF small])
  then show "unat (OffsetForChunk g c)
           = X * Y * axis_start Z D (unat cz)
             + X * axis_start Y D (unat cy) * axis_extent Z D (unat cz)
             + axis_start X D (unat cx) * axis_extent Y D (unat cy) * axis_extent Z D (unat cz)"
    and "unat (OffsetForChunk g c)
           + axis_extent X D (unat cx) * axis_extent Y D (unat cy) * axis_extent Z D (unat cz)
         \<le> X * Y * Z"
    using bound by (simp_all add: VX_def VY_def VZ_def XS_def YS_def ZS_def)
qed

lemma unat_chunk_cells:
  assumes "distributed g" and "fits g" and "c < total_chunks g"
    and "Decode g c = (cx, cy, cz)"
  shows "unat (chunk_xs g cx * chunk_ys g cy * chunk_zs g cz)
           = unat (chunk_xs g cx) * unat (chunk_ys g cy) * unat (chunk_zs g cz)"
    and "unat (OffsetForChunk g c)
           + unat (chunk_xs g cx) * unat (chunk_ys g cy) * unat (chunk_zs g cz)
         \<le> unat (total_x g) * unat (total_y g) * unat (total_z g)"
proof -
  let ?N = "unat (chunk_xs g cx) * unat (chunk_ys g cy) * unat (chunk_zs g cz)"
  show b: "unat (OffsetForChunk g c) + ?N
      \<le> unat (total_x g) * unat (total_y g) * unat (total_z g)"
    using unat_OffsetForChunk(2) [OF assms] by (simp only: unat_chunk_extents [OF assms(1)])
  then have small: "?N < 2 ^ 64"
    using assms(2) by (simp add: fits_def)
  have "chunk_xs g cx * chunk_ys g cy * chunk_zs g cz
      = of_nat (unat (chunk_xs g cx)) * of_nat (unat (chunk_ys g cy))
          * of_nat (unat (chunk_zs g cz))"
    by simp
  also have "\<dots> = of_nat ?N"
    by (simp only: of_nat_mult)
  finally show "unat (chunk_xs g cx * chunk_ys g cy * chunk_zs g cz) = ?N"
    by (simp only: unat_of_nat_small [OF small])
qed

lemma unat_OffsetForChunk_step:
  assumes "distributed g" and "fits g" and "c < total_chunks g"
    and "Decode g c = (cx, cy, cz)"
  shows "unat (OffsetForChunk g (c + 1))
           = unat (OffsetForChunk g c)
             + unat (chunk_xs g cx) * unat (chunk_ys g cy) * unat (chunk_zs g cz)"
proof -
  have "unat (OffsetForChunk g c) + unat (chunk_xs g cx * chunk_ys g cy * chunk_zs g cz)
      < 2 ^ LENGTH(64)"
    using unat_chunk_cells [OF assms] assms(2) by (simp add: fits_def)
  then have "unat (OffsetForChunk g c + chunk_xs g cx * chunk_ys g cy * chunk_zs g cz)
      = unat (OffsetForChunk g c) + unat (chunk_xs g cx * chunk_ys g cy * chunk_zs g cz)"
    by (simp only: unat_add_lem)
  then show ?thesis
    by (simp only: OffsetForChunk_step [OF assms(1,3,4)] unat_chunk_cells(1) [OF assms])
qed

lemma OffsetForChunk_le_next:
  assumes "distributed g" and "fits g" and "c < total_chunks g"
  shows "OffsetForChunk g c \<le> OffsetForChunk g (c + 1)"
proof -
  obtain cx cy cz where dec: "Decode g c = (cx, cy, cz)"
    by (cases "Decode g c") auto
  show ?thesis
    by (simp add: word_le_nat_alt unat_OffsetForChunk_step [OF assms dec])
qed

lemma OffsetForChunk_mono_nat:
  assumes "distributed g" and "fits g"
  shows "m + j \<le> unat (total_chunks g)
           \<Longrightarrow> OffsetForChunk g (of_nat m) \<le> OffsetForChunk g (of_nat (m + j))"
proof (induction j)
  case 0
  then show ?case by simp
next
  case (Suc j)
  have "m + j < 2 ^ 64"
    using Suc.prems unat_lt_64 [of "total_chunks g"] by linarith
  then have "unat (of_nat (m + j) :: SInt) = m + j"
    by (rule unat_of_nat_small)
  then have "(of_nat (m + j) :: SInt) < total_chunks g"
    using Suc.prems by (simp add: word_less_nat_alt)
  then have "OffsetForChunk g (of_nat (m + j)) \<le> OffsetForChunk g (of_nat (m + j) + 1)"
    by (rule OffsetForChunk_le_next [OF assms])
  moreover have "OffsetForChunk g (of_nat m) \<le> OffsetForChunk g (of_nat (m + j))"
    using Suc by simp
  ultimately show ?case
    by (simp add: add.commute)
qed

lemma OffsetForChunk_mono:
  assumes "distributed g" and "fits g" and "c \<le> c'" and "c' \<le> total_chunks g"
  shows "OffsetForChunk g c \<le> OffsetForChunk g c'"
proof -
  have "unat c + (unat c' - unat c) \<le> unat (total_chunks g)"
    using assms(3,4) by (simp add: word_le_nat_alt)
  then have "OffsetForChunk g (of_nat (unat c))
      \<le> OffsetForChunk g (of_nat (unat c + (unat c' - unat c)))"
    by (rule OffsetForChunk_mono_nat [OF assms(1,2)])
  moreover have "unat c + (unat c' - unat c) = unat c'"
    using assms(3) by (simp add: word_le_nat_alt)
  ultimately show ?thesis
    by simp
qed

lemma unat_OffsetForChunk_total:
  assumes "distributed g" and "fits g"
  shows "unat (OffsetForChunk g (total_chunks g))
           = unat (total_x g) * unat (total_y g) * unat (total_z g)"
proof -
  let ?N = "unat (total_x g) * unat (total_y g) * unat (total_z g)"
  have small: "?N < 2 ^ 64"
    using assms(2) by (simp add: fits_def)
  have "total_x g * total_y g * total_z g
      = of_nat (unat (total_x g)) * of_nat (unat (total_y g)) * of_nat (unat (total_z g))"
    by simp
  also have "\<dots> = of_nat ?N"
    by (simp only: of_nat_mult)
  finally show ?thesis
    by (simp only: OffsetForChunk_total [OF assms(1)] unat_of_nat_small [OF small])
qed

text \<open>
  Claim C3. After \<^verbatim>\<open>Generate()\<close> has set up a grid with dimensions at least one and
  \<open>k = d ^ 3\<close> chunks (\<open>d\<close> being what \<^verbatim>\<open>cbrt\<close> returns), for every chunk \<open>c < k\<close>:
  \<open>OffsetForChunk (c + 1) - OffsetForChunk c\<close> is the number of cells \<open>xs * ys * zs\<close> of
  chunk \<open>c\<close>, each extent being the quotient plus one for the first remainder chunks of
  its axis; \<open>OffsetForChunk 0 = 0\<close>; and \<open>OffsetForChunk k = X * Y * Z = n\<close>. The equations
  hold in 64-bit arithmetic as they stand, and as equations between numbers when
  \<open>X * Y * Z\<close> fits in 64 bits.
\<close>

theorem OffsetForChunk_cells:
  assumes "valid_grid env (config g0)"
    and "g = ChunkDistribution (InitDimensions env g0)"
    and "c < total_chunks g"
  shows "(case Decode g c of (cx, cy, cz) \<Rightarrow>
            OffsetForChunk g (c + 1) - OffsetForChunk g c
              = chunk_xs g cx * chunk_ys g cy * chunk_zs g cz
          \<and> (fits g \<longrightarrow>
                unat (OffsetForChunk g (c + 1))
                  = unat (OffsetForChunk g c)
                    + unat (chunk_xs g cx) * unat (chunk_ys g cy) * unat (chunk_zs g cz)))
       \<and> OffsetForChunk g 0 = 0
       \<and> OffsetForChunk g (total_chunks g) = total_x g * total_y g * total_z g
       \<and> OffsetForChunk g (total_chunks g) = n_conf (config g)
       \<and> (fits g \<longrightarrow>
            unat (OffsetForChunk g (total_chunks g))
              = unat (total_x g) * unat (total_y g) * unat (total_z g))"
proof -
  have dist: "distributed g"
    unfolding assms(2) by (rule valid_grid_distributed [OF assms(1)])
  obtain cx cy cz where dec: "Decode g c = (cx, cy, cz)"
    by (cases "Decode g c") auto
  have "OffsetForChunk g (c + 1) - OffsetForChunk g c
      = chunk_xs g cx * chunk_ys g cy * chunk_zs g cz"
    by (simp add: OffsetForChunk_step [OF dist assms(3) dec])
  moreover have "OffsetForChunk g 0 = 0"
    using dist by (simp add: OffsetForChunk_0 distributed_def)
  moreover have "n_conf (config g) = total_x g * total_y g * total_z g"
    by (simp add: assms(2) ChunkDistribution_fields InitDimensions_fields)
  ultimately show ?thesis
    using dec OffsetForChunk_total [OF dist] unat_OffsetForChunk_total [OF dist]
      unat_OffsetForChunk_step [OF dist _ assms(3) dec]
    by simp
qed

theorem OffsetForChunk_cells_witness:
  "valid_grid example_env (config (example_grid 3 3 3 False 8 1))
   \<and> (3 :: SInt)
       < total_chunks (ChunkDistribution (InitDimensions example_env (example_grid 3 3 3 False 8 1)))
   \<and> Decode (ChunkDistribution (InitDimensions example_env (example_grid 3 3 3 False 8 1))) 3
       = (1, 1, 0)
   \<and> OffsetForChunk (ChunkDistribution (InitDimensions example_env (example_grid 3 3 3 False 8 1)))
         (3 + 1)
       - OffsetForChunk (ChunkDistribution (InitDimensions example_env (example_grid 3 3 3 False 8 1)))
           3
       = 1 * 1 * 2
   \<and> OffsetForChunk (ChunkDistribution (InitDimensions example_env (example_grid 3 3 3 False 8 1)))
         8 = 27"
  using OffsetForChunk_cells [of example_env "example_grid 3 3 3 False 8 1"
      "ChunkDistribution (InitDimensions example_env (example_grid 3 3 3 False 8 1))" 3]
  by (simp add: valid_grid_def example_env_def example_grid_def Grid3D_new_def
      UpdateConfig3D_def SetDefaults_def blank_config_def InitDimensions_def
      ChunkDistribution_def Decode_def chunk_xs_def chunk_ys_def chunk_zs_def Let_def
      word_le_nat_alt word_less_nat_alt)

section \<open>What \<^verbatim>\<open>Generate()\<close> emits\<close>

lemma QueryInDirection_eq:
  "QueryInDirection env g chunk vertex direction =
     (if chunk_traps g chunk then Inl DivisionByZero
      else case NeighborVertex g chunk vertex direction of
             None \<Rightarrow> Inr g
           | Some w \<Rightarrow> Inr (GenerateEdge env g vertex w))"
  by (simp add: QueryInDirection_def NeighborVertex_def chunk_traps_def Let_def
      split: prod.splits)

lemma frame_refl: "frame g g"
  by (simp add: frame_def)

lemma frame_trans: "frame g g' \<Longrightarrow> frame g' g'' \<Longrightarrow> frame g g''"
  unfolding frame_def by (metis (no_types, lifting) Grid3D.surjective Grid3D.update_convs(2,3)
      Grid3D.select_convs)

lemma frame_fields:
  assumes "frame g g'"
  shows "config g' = config g" "start_node g' = start_node g" "end_node g' = end_node g"
    "num_nodes g' = num_nodes g" "edge_probability g' = edge_probability g"
    "total_x g' = total_x g" "total_y g' = total_y g" "total_z g' = total_z g"
    "total_chunks g' = total_chunks g" "chunks_per_dim g' = chunks_per_dim g"
    "x_per_chunk g' = x_per_chunk g" "y_per_chunk g' = y_per_chunk g"
    "z_per_chunk g' = z_per_chunk g" "remaining_x g' = remaining_x g"
    "remaining_y g' = remaining_y g" "remaining_z g' = remaining_z g"
    "vertices_per_chunk g' = vertices_per_chunk g"
proof -
  have e: "g' = g\<lparr>emitted := emitted g', io := io g'\<rparr>"
    using assms by (simp add: frame_def)
  show "config g' = config g" "start_node g' = start_node g" "end_node g' = end_node g"
    "num_nodes g' = num_nodes g" "edge_probability g' = edge_probability g"
    "total_x g' = total_x g" "total_y g' = total_y g" "total_z g' = total_z g"
    "total_chunks g' = total_chunks g" "chunks_per_dim g' = chunks_per_dim g"
    "x_per_chunk g' = x_per_chunk g" "y_per_chunk g' = y_per_chunk g"
    "z_per_chunk g' = z_per_chunk g" "remaining_x g' = remaining_x g"
    "remaining_y g' = remaining_y g" "remaining_z g' = remaining_z g"
    "vertices_per_chunk g' = vertices_per_chunk g"
    by (subst e, simp)+
qed

lemma frame_same: "frame g g' \<Longrightarrow> same_grid g g'"
  by (simp add: same_grid_def frame_fields)

lemma same_grid_layout:
  assumes "same_grid g g'"
  shows "Decode g' = Decode g" "Encode g' = Encode g" "OffsetForChunk g' = OffsetForChunk g"
    "chunk_xs g' = chunk_xs g" "chunk_ys g' = chunk_ys g" "chunk_zs g' = chunk_zs g"
    "IsValidChunk g' = IsValidChunk g" "LocateVertexInChunk g' = LocateVertexInChunk g"
proof -
  have f: "config g' = config g" "edge_probability g' = edge_probability g"
    "total_x g' = total_x g" "total_y g' = total_y g" "total_z g' = total_z g"
    "total_chunks g' = total_chunks g" "chunks_per_dim g' = chunks_per_dim g"
    "x_per_chunk g' = x_per_chunk g" "y_per_chunk g' = y_per_chunk g"
    "z_per_chunk g' = z_per_chunk g" "remaining_x g' = remaining_x g"
    "remaining_y g' = remaining_y g" "remaining_z g' = remaining_z g"
    using assms by (simp_all add: same_grid_def)
  show d: "Decode g' = Decode g"
    by (intro ext) (simp add: Decode_def f)
  show "Encode g' = Encode g"
    by (intro ext) (simp add: Encode_def f)
  show o: "OffsetForChunk g' = OffsetForChunk g"
    by (intro ext) (simp add: OffsetForChunk_def f d)
  show x: "chunk_xs g' = chunk_xs g" and y: "chunk_ys g' = chunk_ys g"
    and z: "chunk_zs g' = chunk_zs g"
    by (intro ext, simp add: chunk_xs_def chunk_ys_def chunk_zs_def f)+
  show "IsValidChunk g' = IsValidChunk g"
    by (intro ext) (simp add: IsValidChunk_def f)
  show "LocateVertexInChunk g' = LocateVertexInChunk g"
    by (intro ext) (simp add: LocateVertexInChunk_def d o x y z)
qed

lemma same_grid_queries:
  assumes "same_grid g g'"
  shows "NeighborVertex g' = NeighborVertex g" "chunk_traps g' = chunk_traps g"
    "accepted env g' = accepted env g" "query_edges env g' = query_edges env g"
    "vertex_edges env g' = vertex_edges env g" "chunk_edges env g' = chunk_edges env g"
    "rank_edges env g' = rank_edges env g"
    "distributed g' = distributed g" "fits g' = fits g"
proof -
  have f: "config g' = config g" "edge_probability g' = edge_probability g"
    "total_x g' = total_x g" "total_y g' = total_y g" "total_z g' = total_z g"
    "total_chunks g' = total_chunks g" "chunks_per_dim g' = chunks_per_dim g"
    "x_per_chunk g' = x_per_chunk g" "y_per_chunk g' = y_per_chunk g"
    "z_per_chunk g' = z_per_chunk g" "remaining_x g' = remaining_x g"
    "remaining_y g' = remaining_y g" "remaining_z g' = remaining_z g"
    using assms by (simp_all add: same_grid_def)
  note l = same_grid_layout [OF assms]
  show n: "NeighborVertex g' = NeighborVertex g"
    by (intro ext) (simp only: NeighborVertex_def f l)
  show "chunk_traps g' = chunk_traps g"
    by (intro ext) (simp add: chunk_traps_def l)
  show a: "accepted env g' = accepted env g"
    by (intro ext) (simp add: accepted_def edge_hash_def edge_seed_def f)
  show q: "query_edges env g' = query_edges env g"
    by (intro ext) (simp only: query_edges_def n a)
  show v: "vertex_edges env g' = vertex_edges env g"
    by (intro ext) (simp add: vertex_edges_def q)
  show c: "chunk_edges env g' = chunk_edges env g"
    by (intro ext) (simp add: chunk_edges_def v l)
  show "rank_edges env g' = rank_edges env g"
    by (intro ext) (simp add: rank_edges_def c)
  show "distributed g' = distributed g"
    by (simp add: distributed_def f)
  show "fits g' = fits g"
    by (simp add: fits_def f)
qed

lemmas frame_layout = same_grid_layout [OF frame_same]

lemmas frame_queries = same_grid_queries [OF frame_same]

lemma GenerateEdge_emitted:
  "frame g (GenerateEdge env g u v)"
  "emitted (GenerateEdge env g u v) = emitted g @ (if accepted env g u v then [(u, v)] else [])"
  by (simp_all add: GenerateEdge_def frame_def accepted_def Let_def)

lemma QueryInDirection_emitted:
  assumes "\<not> chunk_traps g chunk"
  shows "\<exists>g'. QueryInDirection env g chunk vertex direction = Inr g' \<and> frame g g'
           \<and> emitted g' = emitted g @ query_edges env g chunk vertex direction"
  using assms
  by (simp add: QueryInDirection_eq query_edges_def GenerateEdge_emitted frame_refl
      split: option.splits)

lemma QueryInDirection_traps:
  "chunk_traps g chunk \<Longrightarrow> QueryInDirection env g chunk vertex direction = Inl DivisionByZero"
  by (simp add: QueryInDirection_eq)

lemma GenerateEdges_emitted:
  assumes "\<not> chunk_traps g chunk"
  shows "\<exists>g'. GenerateEdges env g chunk vertex = Inr g' \<and> frame g g'
           \<and> emitted g' = emitted g @ vertex_edges env g chunk vertex"
proof -
  have step: "\<exists>g''. QueryInDirection env g' chunk vertex direction = Inr g'' \<and> frame g g''
       \<and> emitted g'' = emitted g' @ query_edges env g chunk vertex direction"
    if "frame g g'" for g' direction
  proof -
    have "\<not> chunk_traps g' chunk"
      using assms by (simp add: frame_queries [OF that])
    then obtain g'' where "QueryInDirection env g' chunk vertex direction = Inr g''"
      and "frame g' g''"
      and "emitted g'' = emitted g' @ query_edges env g' chunk vertex direction"
      using QueryInDirection_emitted by blast
    then show ?thesis
      using that by (auto simp add: frame_queries [OF that] intro: frame_trans)
  qed
  obtain g1 where q1: "QueryInDirection env g chunk vertex Right = Inr g1" and f1: "frame g g1"
    and e1: "emitted g1 = emitted g @ query_edges env g chunk vertex Right"
    using step [OF frame_refl] by blast
  obtain g2 where q2: "QueryInDirection env g1 chunk vertex Left = Inr g2" and f2: "frame g g2"
    and e2: "emitted g2 = emitted g1 @ query_edges env g chunk vertex Left"
    using step [OF f1] by blast
  obtain g3 where q3: "QueryInDirection env g2 chunk vertex Up = Inr g3" and f3: "frame g g3"
    and e3: "emitted g3 = emitted g2 @ query_edges env g chunk vertex Up"
    using step [OF f2] by blast
  obtain g4 where q4: "QueryInDirection env g3 chunk vertex Down = Inr g4" and f4: "frame g g4"
    and e4: "emitted g4 = emitted g3 @ query_edges env g chunk vertex Down"
    using step [OF f3] by blast
  obtain g5 where q5: "QueryInDirection env g4 chunk vertex Front = Inr g5" and f5: "frame g g5"
    and e5: "emitted g5 = emitted g4 @ query_edges env g chunk vertex Front"
    using step [OF f4] by blast
  obtain g6 where q6: "QueryInDirection env g5 chunk vertex Back = Inr g6" and f6: "frame g g6"
    and e6: "emitted g6 = emitted g5 @ query_edges env g chunk vertex Back"
    using step [OF f5] by blast
  have "GenerateEdges env g chunk vertex = Inr g6"
    by (simp add: GenerateEdges_def thenE_def q1 q2 q3 q4 q5 q6)
  moreover have "emitted g6 = emitted g @ vertex_edges env g chunk vertex"
    by (simp add: vertex_edges_def e1 e2 e3 e4 e5 e6)
  ultimately show ?thesis
    using f6 by blast
qed

lemma word_upt_step:
  fixes i e :: SInt
  assumes "i < e"
  shows "[unat i ..< unat e] = unat i # [unat (i + 1) ..< unat e]"
proof -
  have "unat (i + 1) = Suc (unat i)"
    using assms by unat_arith
  moreover have "unat i < unat e"
    using assms by (simp add: word_less_nat_alt)
  ultimately show ?thesis
    by (simp add: upt_conv_Cons)
qed

lemma GenerateChunk_loop_emitted:
  "\<not> chunk_traps g chunk \<Longrightarrow>
     \<exists>g'. GenerateChunk_loop env g chunk i end_vertex = Inr g' \<and> frame g g'
       \<and> emitted g' = emitted g
            @ concat (map (\<lambda>n. vertex_edges env g chunk (of_nat n)) [unat i ..< unat end_vertex])"
proof (induction env g chunk i end_vertex rule: GenerateChunk_loop.induct)
  case (1 env g chunk i end_vertex)
  show ?case
  proof (cases "i < end_vertex")
    case True
    obtain g1 where q: "GenerateEdges env g chunk i = Inr g1" and f: "frame g g1"
      and e: "emitted g1 = emitted g @ vertex_edges env g chunk i"
      using GenerateEdges_emitted [OF "1.prems"] by blast
    have "\<not> chunk_traps g1 chunk"
      using "1.prems" by (simp add: frame_queries [OF f])
    then obtain g' where l: "GenerateChunk_loop env g1 chunk (i + 1) end_vertex = Inr g'"
      and f': "frame g1 g'"
      and e': "emitted g' = emitted g1
          @ concat (map (\<lambda>n. vertex_edges env g1 chunk (of_nat n))
              [unat (i + 1) ..< unat end_vertex])"
      using "1.IH" [OF True q] by blast
    have "GenerateChunk_loop env g chunk i end_vertex = Inr g'"
      using True q l by (subst GenerateChunk_loop.simps) simp
    moreover have "frame g g'"
      using f f' by (rule frame_trans)
    moreover have "emitted g' = emitted g
        @ concat (map (\<lambda>n. vertex_edges env g chunk (of_nat n)) [unat i ..< unat end_vertex])"
      by (simp add: e e' word_upt_step [OF True] frame_queries [OF f])
    ultimately show ?thesis
      by blast
  next
    case False
    then have "GenerateChunk_loop env g chunk i end_vertex = Inr g"
      by (subst GenerateChunk_loop.simps) simp
    moreover have "unat end_vertex \<le> unat i"
      using False by (simp add: word_less_nat_alt)
    ultimately show ?thesis
      by (simp add: frame_refl)
  qed
qed

lemma chunk_traps_empty:
  assumes "distributed g" and "c < total_chunks g" and "chunk_traps g c"
  shows "OffsetForChunk g (c + 1) = OffsetForChunk g c"
proof -
  obtain cx cy cz where dec: "Decode g c = (cx, cy, cz)"
    by (cases "Decode g c") auto
  have "chunk_xs g cx * chunk_ys g cy = 0"
    using assms(3) by (auto simp add: chunk_traps_def dec)
  then show ?thesis
    by (simp add: OffsetForChunk_step [OF assms(1,2) dec])
qed

lemma GenerateChunk_emitted:
  assumes "distributed g" and "c < total_chunks g"
  shows "\<exists>g'. GenerateChunk env g c = Inr g' \<and> frame g g'
           \<and> emitted g' = emitted g @ chunk_edges env g c"
proof (cases "chunk_traps g c")
  case True
  have e: "OffsetForChunk g (c + 1) = OffsetForChunk g c"
    by (rule chunk_traps_empty [OF assms True])
  have "GenerateChunk env g c = Inr g"
    by (simp add: GenerateChunk_def e Let_def) (subst GenerateChunk_loop.simps, simp)
  then show ?thesis
    by (simp add: chunk_edges_def e frame_refl)
next
  case False
  then show ?thesis
    using GenerateChunk_loop_emitted [OF False]
    by (simp add: GenerateChunk_def chunk_edges_def Let_def)
qed

lemma Generate_loop_emitted:
  "distributed g \<Longrightarrow> unat first_chunk + unat count \<le> unat (total_chunks g) \<Longrightarrow>
     \<exists>g'. Generate_loop env g first_chunk i count = Inr g' \<and> frame g g'
       \<and> emitted g' = emitted g
            @ concat (map (\<lambda>n. chunk_edges env g (first_chunk + of_nat n)) [unat i ..< unat count])"
proof (induction env g first_chunk i count rule: Generate_loop.induct)
  case (1 env g first_chunk i count)
  show ?case
  proof (cases "i < count")
    case True
    have "unat first_chunk + unat i < unat (total_chunks g)"
      using True "1.prems"(2) by (simp add: word_less_nat_alt)
    moreover from this have "unat (first_chunk + i) = unat first_chunk + unat i"
      using unat_lt_64 [of "total_chunks g"] by (simp add: unat_add_lem [THEN iffD1])
    ultimately have c: "first_chunk + i < total_chunks g"
      by (simp add: word_less_nat_alt)
    obtain g1 where q: "GenerateChunk env g (first_chunk + i) = Inr g1" and f: "frame g g1"
      and e: "emitted g1 = emitted g @ chunk_edges env g (first_chunk + i)"
      using GenerateChunk_emitted [OF "1.prems"(1) c] by blast
    have "distributed g1" and "unat first_chunk + unat count \<le> unat (total_chunks g1)"
      using "1.prems" by (simp_all add: frame_queries [OF f] frame_fields [OF f])
    then obtain g' where l: "Generate_loop env g1 first_chunk (i + 1) count = Inr g'"
      and f': "frame g1 g'"
      and e': "emitted g' = emitted g1
          @ concat (map (\<lambda>n. chunk_edges env g1 (first_chunk + of_nat n))
              [unat (i + 1) ..< unat count])"
      using "1.IH" [OF True q] by blast
    have "Generate_loop env g first_chunk i count = Inr g'"
      using True q l by (subst Generate_loop.simps) simp
    moreover have "frame g g'"
      using f f' by (rule frame_trans)
    moreover have "emitted g' = emitted g
        @ concat (map (\<lambda>n. chunk_edges env g (first_chunk + of_nat n)) [unat i ..< unat count])"
      by (simp add: e e' word_upt_step [OF True] frame_queries [OF f])
    ultimately show ?thesis
      by blast
  next
    case False
    then have "Generate_loop env g first_chunk i count = Inr g"
      by (subst Generate_loop.simps) simp
    moreover have "unat count \<le> unat i"
      using False by (simp add: word_less_nat_alt)
    ultimately show ?thesis
      by (simp add: frame_refl)
  qed
qed

lemma NodeRange_fields:
  "same_grid g (NodeRange g s e)"
  "start_node (NodeRange g s e) = OffsetForChunk g s"
  "num_nodes (NodeRange g s e) = OffsetForChunk g e - OffsetForChunk g s"
  "emitted (NodeRange g s e) = emitted g"
  "io (NodeRange g s e) = io g"
proof -
  have o: "OffsetForChunk (g\<lparr>start_node := a\<rparr>) = OffsetForChunk g" for a
    by (intro ext) (simp add: OffsetForChunk_def Decode_def)
  show "same_grid g (NodeRange g s e)"
    by (simp add: NodeRange_def same_grid_def Let_def)
  show "start_node (NodeRange g s e) = OffsetForChunk g s"
    by (simp add: NodeRange_def Let_def)
  show "num_nodes (NodeRange g s e) = OffsetForChunk g e - OffsetForChunk g s"
    by (simp add: NodeRange_def Let_def o)
  show "emitted (NodeRange g s e) = emitted g" and "io (NodeRange g s e) = io g"
    by (simp_all add: NodeRange_def Let_def)
qed

lemma Generate_emitted:
  assumes "valid_grid env (config g0)" and "0 < P" and "rank < P"
  defines "g1 \<equiv> ChunkDistribution (InitDimensions env g0)"
  defines "k \<equiv> k_conf (config g0)"
  shows "\<exists>g'. Generate env P rank g0 = Inr g'
           \<and> same_grid g1 g'
           \<and> GetVertexRange g'
               = (OffsetForChunk g1 (start_chunk k P rank),
                  OffsetForChunk g1 (end_chunk k P rank) - 1)
           \<and> emitted g' = emitted g0 @ rank_edges env g1 (start_chunk k P rank)
                                         (num_chunks k P rank)"
proof -
  let ?s = "start_chunk k P rank" and ?e = "end_chunk k P rank"
  let ?g2 = "NodeRange g1 ?s ?e"
  have d1: "distributed g1"
    unfolding g1_def by (rule valid_grid_distributed [OF assms(1)])
  have tc: "total_chunks g1 = k"
    by (simp add: g1_def k_def ChunkDistribution_fields InitDimensions_fields)
  have sg: "same_grid g1 ?g2"
    by (rule NodeRange_fields)
  have d2: "distributed ?g2"
    using d1 by (simp add: same_grid_queries [OF sg])
  have "unat ?s + unat (num_chunks k P rank) \<le> unat k"
    using unat_end_chunk [OF assms(2,3), of k] by simp
  then have b: "unat ?s + unat (num_chunks k P rank) \<le> unat (total_chunks ?g2)"
    using sg tc by (simp add: same_grid_def)
  obtain g' where l: "Generate_loop env ?g2 ?s 0 (num_chunks k P rank) = Inr g'"
    and f: "frame ?g2 g'"
    and e: "emitted g' = emitted ?g2
        @ concat (map (\<lambda>n. chunk_edges env ?g2 (?s + of_nat n))
            [unat (0 :: SInt) ..< unat (num_chunks k P rank)])"
    using Generate_loop_emitted [OF d2 b] by blast
  have nz: "P \<noteq> 0" and dz: "chunks_per_dim (InitDimensions env g0) \<noteq> 0"
    using assms(1,2) by (auto simp add: valid_grid_def InitDimensions_fields)
  have tc0: "total_chunks ?g2 = k"
    using sg tc by (simp add: same_grid_def)
  have tcn: "total_chunks (NodeRange g1 a b) = k" for a b
    using NodeRange_fields(1) [of g1 a b] tc by (simp add: same_grid_def)
  have "Generate env P rank g0 = Inr g'"
    using l nz dz by (simp add: Generate_def Let_def tc tcn flip: g1_def)
  moreover have "same_grid g1 g'"
    using sg frame_same [OF f] by (simp add: same_grid_def)
  moreover have "GetVertexRange g' = (OffsetForChunk g1 ?s, OffsetForChunk g1 ?e - 1)"
    by (simp add: GetVertexRange_def frame_fields [OF f] NodeRange_fields)
  moreover have "emitted g1 = emitted g0"
    by (simp add: g1_def ChunkDistribution_fields InitDimensions_fields)
  then have "emitted g' = emitted g0 @ rank_edges env g1 ?s (num_chunks k P rank)"
    by (simp add: e rank_edges_def NodeRange_fields same_grid_queries [OF sg])
  ultimately show ?thesis
    by blast
qed

section \<open>Vertex ranges of the participants\<close>

lemma axis_extent_pos: "0 < T \<Longrightarrow> 0 < D \<Longrightarrow> 0 < axis_extent T D 0"
proof -
  assume T: "0 < T" and D: "0 < D"
  show ?thesis
  proof (cases "T div D = 0")
    case True
    then have "T < D"
      using D by (simp add: div_eq_0_iff)
    then show ?thesis
      using T by (simp add: axis_extent_def)
  next
    case False
    then show ?thesis
      by (simp add: axis_extent_def)
  qed
qed

lemma OffsetForChunk_1_pos:
  assumes "distributed g" and "fits g"
  shows "0 < unat (OffsetForChunk g 1)"
proof -
  let ?D = "unat (chunks_per_dim g)"
  have D: "0 < ?D"
    using assms(1) by (simp add: distributed_def unat_gt_0)
  have "unat (total_chunks g) = ?D ^ 3"
    using assms(1) by (simp add: distributed_def)
  then have K: "0 < unat (total_chunks g)"
    using D by simp
  then have c: "(0 :: SInt) < total_chunks g"
    by (simp add: word_less_nat_alt)
  have dec: "Decode g 0 = (0, 0, 0)"
    by (simp add: Decode_def)
  have T: "0 < unat (total_x g)" "0 < unat (total_y g)" "0 < unat (total_z g)"
    using assms(1) by (simp_all add: distributed_def unat_gt_0)
  have "unat (OffsetForChunk g (0 + 1))
      = unat (OffsetForChunk g 0)
        + unat (chunk_xs g 0) * unat (chunk_ys g 0) * unat (chunk_zs g 0)"
    by (rule unat_OffsetForChunk_step [OF assms c dec])
  moreover have "0 < unat (chunk_xs g 0) * unat (chunk_ys g 0) * unat (chunk_zs g 0)"
    using T D by (simp add: unat_chunk_extents [OF assms(1)] axis_extent_pos)
  ultimately show ?thesis
    by simp
qed

lemma share_start_mono:
  fixes q l :: nat
  shows "R \<le> R' \<Longrightarrow> R * q + min R l \<le> R' * q + min R' l"
  by (intro add_mono mult_le_mono1 min.mono) simp_all

lemma end_chunk_le_start_chunk:
  assumes "0 < P" and "r1 < r2" and "r2 < P"
  shows "end_chunk k P r1 \<le> start_chunk k P r2"
proof -
  have r1: "r1 < P"
    using assms(2,3) by simp
  have "unat r1 + 1 \<le> unat r2"
    using assms(2) by (simp add: word_less_nat_alt)
  then have "(unat r1 + 1) * (unat k div unat P) + min (unat r1 + 1) (unat k mod unat P)
      \<le> unat r2 * (unat k div unat P) + min (unat r2) (unat k mod unat P)"
    by (rule share_start_mono)
  then show ?thesis
    using unat_end_chunk [OF assms(1) r1, of k] unat_start_chunk [OF assms(1,3), of k]
    by (simp add: word_le_nat_alt)
qed

lemma end_chunk_pos:
  assumes "0 < P" and "rank < P" and "0 < k"
  shows "1 \<le> end_chunk k P rank"
proof -
  define q l where "q = unat k div unat P" and "l = unat k mod unat P"
  have K: "unat k = unat P * q + l"
    by (simp add: q_def l_def)
  have "0 < unat k"
    using assms(3) by (simp add: word_less_nat_alt)
  then have "0 < q \<or> 0 < l"
    using K by (cases "q = 0") simp_all
  then have "0 < (unat rank + 1) * q + min (unat rank + 1) l"
  proof
    assume "0 < q"
    then show ?thesis by simp
  next
    assume "0 < l"
    then have "0 < min (unat rank + 1) l"
      by simp
    then show ?thesis
      by (rule trans_less_add2)
  qed
  then have "0 < unat (end_chunk k P rank)"
    using unat_end_chunk [OF assms(1,2), of k] by (simp add: q_def l_def)
  then show ?thesis
    by (simp add: word_le_nat_alt)
qed

lemma word_le_dec_iff:
  fixes v w :: SInt
  assumes "w \<noteq> 0"
  shows "v \<le> w - 1 \<longleftrightarrow> v < w"
  using assms by (simp add: less_eq_dec_iff)

text \<open>
  Where the truncated \<^verbatim>\<open>cbrt\<close> of the chunk count is its exact cube root (\<open>valid_grid\<close>),
  the vertex ranges that \<^verbatim>\<open>GetVertexRange()\<close> returns on the participants \<open>0, \<dots>, P - 1\<close>
  after \<^verbatim>\<open>Generate()\<close> partition \<open>[0, n)\<close>: every participant returns, the first range
  starts at 0, each range starts right after the one before, the last ends at \<open>n - 1\<close>,
  and a vertex id lies in a range exactly if it is below \<open>n\<close>, and then in one range
  only.
\<close>

theorem vertex_ranges_partition:
  assumes "valid_grid env cfg"
    and "unat (grid_x cfg) * unat (grid_y cfg) * unat (grid_z cfg) < 2 ^ 64"
    and "0 < P"
  shows "\<exists>first last.
           (\<forall>rank. rank < P \<longrightarrow> rank_vertex_range env cfg P rank = Some (first rank, last rank))
         \<and> first 0 = 0
         \<and> (\<forall>rank. rank < P \<and> rank + 1 = P \<longrightarrow>
               last rank + 1 = grid_x cfg * grid_y cfg * grid_z cfg)
         \<and> (\<forall>rank. rank < P \<and> rank + 1 < P \<longrightarrow> first (rank + 1) = last rank + 1)
         \<and> (\<forall>v. v < grid_x cfg * grid_y cfg * grid_z cfg
                 \<longleftrightarrow> (\<exists>rank. rank < P \<and> first rank \<le> v \<and> v \<le> last rank))
         \<and> (\<forall>v r1 r2. r1 < P \<and> r2 < P \<and> first r1 \<le> v \<and> v \<le> last r1
                 \<and> first r2 \<le> v \<and> v \<le> last r2 \<longrightarrow> r1 = r2)"
proof -
  define g0 where "g0 = Grid3D_new cfg 0"
  define g1 where "g1 = ChunkDistribution (InitDimensions env g0)"
  define k where "k = k_conf cfg"
  define n where "n = grid_x cfg * grid_y cfg * grid_z cfg"
  define Off where "Off = OffsetForChunk g1"
  define first where "first = (\<lambda>rank. Off (start_chunk k P rank))"
  define last where "last = (\<lambda>rank. Off (end_chunk k P rank) - 1)"
  have cfg0: "config g0 = cfg"
    by (simp add: g0_def Grid3D_new_def)
  have new: "Grid3D_new cfg rank = g0" for rank
    by (simp add: g0_def Grid3D_new_def)
  have valid: "valid_grid env (config g0)"
    using assms(1) by (simp add: cfg0)
  have d1: "distributed g1"
    unfolding g1_def by (rule valid_grid_distributed [OF valid])
  have tot: "total_x g1 = grid_x cfg" "total_y g1 = grid_y cfg" "total_z g1 = grid_z cfg"
    "total_chunks g1 = k"
    by (simp_all add: g1_def k_def cfg0 ChunkDistribution_fields InitDimensions_fields)
  have f1: "fits g1"
    using assms(2) by (simp add: fits_def tot)
  have kpos: "0 < k"
  proof -
    have "0 < unat (chunks_per_dim g1)"
      using d1 by (simp add: distributed_def unat_gt_0)
    moreover have "unat k = unat (chunks_per_dim g1) ^ 3"
      using d1 by (simp add: distributed_def tot)
    ultimately have "0 < unat k"
      by simp
    then show ?thesis
      by (simp add: word_less_nat_alt)
  qed
  have Off0: "Off 0 = 0"
    using d1 by (simp add: Off_def OffsetForChunk_0 distributed_def)
  have Offk: "Off k = n"
    using OffsetForChunk_total [OF d1] by (simp add: Off_def n_def tot)
  have mono: "Off c \<le> Off c'" if "c \<le> c'" "c' \<le> k" for c c'
    using OffsetForChunk_mono [OF d1 f1 that(1)] that(2) by (simp add: Off_def tot)
  have ek: "end_chunk k P rank \<le> k" if "rank < P" for rank
    using unat_end_chunk [OF assms(3) that, of k] by (simp add: word_le_nat_alt)
  have se: "start_chunk k P rank \<le> end_chunk k P rank" if "rank < P" for rank
    using unat_end_chunk [OF assms(3) that, of k] by (simp add: word_le_nat_alt)
  have epos: "Off (end_chunk k P rank) \<noteq> 0" if "rank < P" for rank
  proof -
    have "Off 1 \<le> Off (end_chunk k P rank)"
      by (rule mono [OF end_chunk_pos [OF assms(3) that kpos] ek [OF that]])
    moreover have "0 < unat (Off 1)"
      unfolding Off_def by (rule OffsetForChunk_1_pos [OF d1 f1])
    ultimately show ?thesis
      by (auto simp add: word_le_nat_alt)
  qed
  have in_range: "first rank \<le> v \<and> v \<le> last rank
      \<longleftrightarrow> Off (start_chunk k P rank) \<le> v \<and> v < Off (end_chunk k P rank)"
    if "rank < P" for rank v
    by (simp add: first_def last_def word_le_dec_iff [OF epos [OF that]])
  have F1: "rank_vertex_range env cfg P rank = Some (first rank, last rank)"
    if lt: "rank < P" for rank
  proof -
    obtain g' where "Generate env P rank g0 = Inr g'"
      and "GetVertexRange g'
        = (OffsetForChunk (ChunkDistribution (InitDimensions env g0))
             (start_chunk (k_conf (config g0)) P rank),
           OffsetForChunk (ChunkDistribution (InitDimensions env g0))
             (end_chunk (k_conf (config g0)) P rank) - 1)"
      using Generate_emitted [OF valid assms(3) lt] by blast
    then show ?thesis
      by (simp add: rank_vertex_range_def new first_def last_def Off_def g1_def k_def cfg0)
  qed
  have F2: "first 0 = 0"
    by (simp add: first_def Off0 start_chunk_def leftover_chunks_def)
  have F3: "last rank + 1 = n" if "rank < P" "rank + 1 = P" for rank
    using end_chunk_last [OF assms(3) that(2,1), of k] by (simp add: last_def Offk)
  have F4: "first (rank + 1) = last rank + 1" if "rank < P" "rank + 1 < P" for rank
    using start_chunk_next [OF assms(3) that(2,1), of k] by (simp add: first_def last_def)
  have F5a: "v < n" if "rank < P" "first rank \<le> v" "v \<le> last rank" for rank v
  proof -
    have "v < Off (end_chunk k P rank)"
      using in_range [OF that(1), of v] that(2,3) by blast
    moreover have "Off (end_chunk k P rank) \<le> Off k"
      by (rule mono [OF ek [OF that(1)]]) simp
    ultimately show ?thesis
      by (simp add: Offk)
  qed
  have F5b: "\<exists>rank. rank < P \<and> first rank \<le> v \<and> v \<le> last rank" if "v < n" for v
  proof -
    define A where "A = (\<lambda>j. j < unat P \<and> v < Off (end_chunk k P (of_nat j)))"
    have P1: "unat P - 1 < unat P"
      using assms(3) by (simp add: word_less_nat_alt)
    have "(of_nat (unat P - 1) :: SInt) + 1 = of_nat (Suc (unat P - 1))"
      by simp
    also have "Suc (unat P - 1) = unat P"
      using P1 by simp
    finally have lastr: "(of_nat (unat P - 1) :: SInt) + 1 = P"
      by simp
    have small: "unat (of_nat j :: SInt) = j" if "j < unat P" for j
      using that unat_lt_64 [of P] by (intro unat_of_nat_small) linarith
    have ltP: "(of_nat j :: SInt) < P" if "j < unat P" for j
      using that small [OF that] by (simp add: word_less_nat_alt)
    have "A (unat P - 1)"
      using end_chunk_last [OF assms(3) lastr ltP [OF P1], of k] \<open>v < n\<close> P1
      by (simp add: A_def Offk)
    then have L: "A (LEAST j. A j)"
      by (rule LeastI)
    have M: "\<not> A j" if "j < (LEAST j. A j)" for j
      using that by (rule not_less_Least)
    define j where "j = (LEAST j. A j)"
    have jP: "j < unat P" and jv: "v < Off (end_chunk k P (of_nat j))"
      using L by (simp_all add: A_def j_def)
    have "Off (start_chunk k P (of_nat j)) \<le> v"
    proof (cases j)
      case 0
      then show ?thesis
        by (simp add: start_chunk_def leftover_chunks_def Off0)
    next
      case (Suc i)
      have iP: "i < unat P"
        using jP Suc by simp
      have "\<not> A i"
        using M [of i] Suc by (simp add: j_def)
      then have "Off (end_chunk k P (of_nat i)) \<le> v"
        using iP by (simp add: A_def)
      moreover have "(of_nat i :: SInt) + 1 < P"
        using ltP [OF jP] Suc by (simp add: add.commute)
      then have "start_chunk k P (of_nat i + 1) = end_chunk k P (of_nat i)"
        by (rule start_chunk_next [OF assms(3) _ ltP [OF iP]])
      ultimately show ?thesis
        using Suc by (simp add: add.commute)
    qed
    then show ?thesis
      using jv ltP [OF jP] in_range [OF ltP [OF jP]] by blast
  qed
  have F6: "r1 = r2" if "r1 < P" "r2 < P" "first r1 \<le> v" "v \<le> last r1"
    "first r2 \<le> v" "v \<le> last r2" for v r1 r2
  proof (rule ccontr)
    assume ne: "r1 \<noteq> r2"
    have sep: False if a: "a < P" and b: "b < P" and ab: "a < b"
      and va: "v < Off (end_chunk k P a)" and vb: "Off (start_chunk k P b) \<le> v" for a b
    proof -
      have "end_chunk k P a \<le> start_chunk k P b"
        by (rule end_chunk_le_start_chunk [OF assms(3) ab b])
      moreover have "start_chunk k P b \<le> k"
        using se [OF b] ek [OF b] by simp
      ultimately have "Off (end_chunk k P a) \<le> Off (start_chunk k P b)"
        by (rule mono)
      then show False
        using va vb by simp
    qed
    consider "r1 < r2" | "r2 < r1"
      using ne by (meson linorder_neqE)
    then show False
    proof cases
      case 1
      then show False
        using sep [OF that(1,2)] that in_range by blast
    next
      case 2
      then show False
        using sep [OF that(2,1)] that in_range by blast
    qed
  qed
  show ?thesis
    using F1 F2 F3 F4 F5a F5b F6 unfolding n_def
    by (intro exI [of _ first] exI [of _ last]) blast
qed

theorem vertex_ranges_partition_witness:
  "valid_grid example_env (config (example_grid 2 2 2 False 8 3))
   \<and> unat (grid_x (config (example_grid 2 2 2 False 8 3)))
       * unat (grid_y (config (example_grid 2 2 2 False 8 3)))
       * unat (grid_z (config (example_grid 2 2 2 False 8 3))) < 2 ^ 64
   \<and> (0 :: SInt) < 3
   \<and> (\<exists>first last.
         rank_vertex_range example_env (config (example_grid 2 2 2 False 8 3)) 3 0
           = Some (first (0 :: SInt), last (0 :: SInt))
       \<and> rank_vertex_range example_env (config (example_grid 2 2 2 False 8 3)) 3 1
           = Some (first 1, last 1)
       \<and> rank_vertex_range example_env (config (example_grid 2 2 2 False 8 3)) 3 2
           = Some (first 2, last 2)
       \<and> first 0 = 0 \<and> first 1 = last 0 + 1 \<and> first 2 = last 1 + 1 \<and> last 2 + 1 = 8)"
proof -
  have v: "valid_grid example_env (config (example_grid 2 2 2 False 8 3))"
    by (simp add: valid_grid_def example_env_def example_grid_def Grid3D_new_def
        UpdateConfig3D_def SetDefaults_def blank_config_def word_le_nat_alt word_less_nat_alt)
  have f: "unat (grid_x (config (example_grid 2 2 2 False 8 3)))
       * unat (grid_y (config (example_grid 2 2 2 False 8 3)))
       * unat (grid_z (config (example_grid 2 2 2 False 8 3))) < 2 ^ 64"
    by (simp add: example_grid_def Grid3D_new_def UpdateConfig3D_def)
  have p: "(0 :: SInt) < 3"
    by simp
  obtain first last where
    r: "\<forall>rank. rank < 3 \<longrightarrow>
          rank_vertex_range example_env (config (example_grid 2 2 2 False 8 3)) 3 rank
            = Some (first rank, last rank)"
    and z: "first 0 = 0"
    and e: "\<forall>rank. rank < 3 \<and> rank + 1 = 3 \<longrightarrow>
          last rank + 1
            = grid_x (config (example_grid 2 2 2 False 8 3))
              * grid_y (config (example_grid 2 2 2 False 8 3))
              * grid_z (config (example_grid 2 2 2 False 8 3))"
    and s: "\<forall>rank. rank < 3 \<and> rank + 1 < 3 \<longrightarrow> first (rank + 1) = last rank + 1"
    using vertex_ranges_partition [OF v f p] by blast
  have "rank_vertex_range example_env (config (example_grid 2 2 2 False 8 3)) 3 0
      = Some (first 0, last 0)"
    and "rank_vertex_range example_env (config (example_grid 2 2 2 False 8 3)) 3 1
      = Some (first 1, last 1)"
    and "rank_vertex_range example_env (config (example_grid 2 2 2 False 8 3)) 3 2
      = Some (first 2, last 2)"
    using r by (simp_all add: word_less_nat_alt)
  moreover have "first 1 = last 0 + 1" and "first 2 = last 1 + 1"
    using s [rule_format, of 0] s [rule_format, of 1] by (simp_all add: word_less_nat_alt)
  moreover have "last 2 + 1 = 8"
    using e [rule_format, of 2]
    by (simp add: word_less_nat_alt example_grid_def Grid3D_new_def UpdateConfig3D_def)
  ultimately show ?thesis
    using v f p z by blast
qed

text \<open>
  Claim C5. For every \<open>P \<ge> 1\<close> and configuration with \<open>k = d\<^sup>3\<close> chunks and dimensions at
  least one, the vertex ranges of the participants partition \<open>[0, n)\<close>. The code computes
  \<open>d\<close> as the truncated floating-point \<^verbatim>\<open>cbrt(k)\<close>, and the claim fails where that is not
  exact: on a \<open>30 \<times> 30 \<times> 30\<close> grid (\<open>n = 27000\<close>) with \<open>k = 15\<^sup>3\<close> chunks, one per
  participant, and a \<^verbatim>\<open>cbrt\<close> that yields 14 after truncation, the last participant
  returns the range \<open>[32880, 32891]\<close>, which lies beyond \<open>n\<close>.
\<close>

theorem vertex_ranges_inexact_cbrt:
  "grid_x (UpdateConfig3D (SetDefaults 3375 blank_config) 30 30 30 0 False 3375 1 ''out'')
     * grid_y (UpdateConfig3D (SetDefaults 3375 blank_config) 30 30 30 0 False 3375 1 ''out'')
     * grid_z (UpdateConfig3D (SetDefaults 3375 blank_config) 30 30 30 0 False 3375 1 ''out'')
     = 27000
   \<and> k_conf (UpdateConfig3D (SetDefaults 3375 blank_config) 30 30 30 0 False 3375 1 ''out'')
     = 15 * 15 * 15
   \<and> cbrt_trunc libm_env (15 * 15 * 15) = 14
   \<and> rank_vertex_range libm_env
         (UpdateConfig3D (SetDefaults 3375 blank_config) 30 30 30 0 False 3375 1 ''out'')
         3375 3374
     = Some (32880, 32891)"
proof -
  let ?cfg = "UpdateConfig3D (SetDefaults 3375 blank_config) 30 30 30 0 False 3375 1 ''out''"
  define g0 where "g0 = InitDimensions libm_env (Grid3D_new ?cfg 3374)"
  define g1 where "g1 = ChunkDistribution g0"
  define g2 where "g2 = NodeRange g1 3374 3375"
  have c: "grid_x ?cfg = 30" "grid_y ?cfg = 30" "grid_z ?cfg = 30" "k_conf ?cfg = 3375"
    by (simp_all add: UpdateConfig3D_def SetDefaults_def)
  have f0: "total_chunks g0 = 3375" "chunks_per_dim g0 = 14"
    by (simp_all add: g0_def InitDimensions_fields Grid3D_new_def c libm_env_def)
  have f1: "total_x g1 = 30" "total_y g1 = 30" "total_z g1 = 30" "chunks_per_dim g1 = 14"
    "x_per_chunk g1 = 2" "y_per_chunk g1 = 2" "z_per_chunk g1 = 2"
    "remaining_x g1 = 2" "remaining_y g1 = 2" "remaining_z g1 = 2"
    by (simp_all add: g1_def g0_def ChunkDistribution_def InitDimensions_def Grid3D_new_def c
        libm_env_def Let_def word_less_nat_alt word_le_nat_alt)
  have tc1: "total_chunks g1 = 3375"
    by (simp add: g1_def ChunkDistribution_fields f0)
  have dec: "Decode g1 3374 = (0, 3, 17)" "Decode g1 3375 = (1, 3, 17)"
    by (simp_all add: Decode_def f1)
  have off: "OffsetForChunk g1 3374 = 32880" "OffsetForChunk g1 3375 = 32892"
    by (simp_all add: OffsetForChunk_def dec f1 Let_def word_less_nat_alt word_le_nat_alt)
  have sg: "same_grid g1 g2"
    unfolding g2_def by (rule NodeRange_fields)
  have r2: "start_node g2 = 32880" "num_nodes g2 = 12"
    by (simp_all add: g2_def NodeRange_fields off)
  have "\<not> chunk_traps g1 3374"
    by (simp add: chunk_traps_def dec chunk_xs_def chunk_ys_def f1 word_less_nat_alt)
  then have "\<not> chunk_traps g2 3374"
    by (simp add: same_grid_queries [OF sg])
  then obtain g' where l: "GenerateChunk_loop libm_env g2 3374 32880 32892 = Inr g'"
    and fr: "frame g2 g'"
    using GenerateChunk_loop_emitted by blast
  have "GenerateChunk libm_env g2 3374 = Inr g'"
    using l by (simp add: GenerateChunk_def same_grid_layout [OF sg] off)
  then have "Generate_loop libm_env g2 3374 0 1 = Inr g'"
    by (subst Generate_loop.simps, simp, subst Generate_loop.simps, simp)
  moreover have "start_chunk 3375 3375 3374 = (3374 :: SInt)"
    "end_chunk 3375 3375 3374 = (3375 :: SInt)" "num_chunks 3375 3375 3374 = (1 :: SInt)"
    by (simp_all add: start_chunk_def end_chunk_def num_chunks_def leftover_chunks_def
        word_less_nat_alt word_le_nat_alt)
  moreover have "total_chunks g2 = 3375"
    using sg tc1 by (simp add: same_grid_def)
  ultimately have "Generate libm_env 3375 3374 (Grid3D_new ?cfg 3374) = Inr g'"
    by (simp add: Generate_def Let_def f0 tc1 flip: g0_def g1_def g2_def)
  moreover have "GetVertexRange g' = (32880, 32891)"
    by (simp add: GetVertexRange_def frame_fields [OF fr] r2)
  ultimately have "rank_vertex_range libm_env ?cfg 3375 3374 = Some (32880, 32891)"
    by (simp add: rank_vertex_range_def)
  moreover have "cbrt_trunc libm_env (15 * 15 * 15) = 14"
    by (simp add: libm_env_def)
  ultimately show ?thesis
    by (simp add: c)
qed

section \<open>The binary edge list\<close>

lemma fwrite_edges_eq:
  "fwrite_edges fout es = fout @ concat (map (\<lambda>(u, v). [u + 1, v + 1]) es)"
  by (induction fout es rule: fwrite_edges.induct) simp_all

lemma contents_upd: "contents (fs(f \<mapsto> c)) f = c"
  by (simp add: contents_def)

lemma AppendBinaryEdgeList_contents:
  "contents (AppendBinaryEdgeList fs filename es) filename
     = contents fs filename @ concat (map (\<lambda>(u, v). [u + 1, v + 1]) es)"
  by (simp add: AppendBinaryEdgeList_def contents_upd fwrite_edges_eq)

lemma CreateFile_contents: "contents (CreateFile fs filename) filename = []"
  by (simp add: CreateFile_def contents_upd)

lemma ranks_member:
  "r \<in> set (ranks comm) \<longleftrightarrow> r < Comm_size comm"
proof
  assume "r \<in> set (ranks comm)"
  then obtain n where n: "n < unat (Comm_size comm)" and r: "r = of_nat n"
    by (auto simp add: ranks_def)
  have "n < 2 ^ 64"
    using n unat_lt_64 [of "Comm_size comm"] by linarith
  then have "unat r = n"
    by (simp only: r unat_of_nat_small)
  then show "r < Comm_size comm"
    using n by (simp add: word_less_nat_alt)
next
  assume "r < Comm_size comm"
  then have "unat r < unat (Comm_size comm)"
    by (simp add: word_less_nat_alt)
  moreover have "r = of_nat (unat r)"
    by simp
  ultimately show "r \<in> set (ranks comm)"
    unfolding ranks_def by (metis atLeast0LessThan imageI lessThan_iff set_map set_upt)
qed

lemma ranks_single: "Comm_size comm = 1 \<Longrightarrow> ranks comm = [0]"
  by (simp add: ranks_def)

lemma only_root:
  "list_all (\<lambda>r. r = ROOT) (ranks comm) \<longleftrightarrow> Comm_size comm \<le> 1"
proof
  assume a: "list_all (\<lambda>r. r = ROOT) (ranks comm)"
  show "Comm_size comm \<le> 1"
  proof (rule ccontr)
    assume "\<not> Comm_size comm \<le> 1"
    then have "1 < Comm_size comm"
      by simp
    then have "1 \<in> set (ranks comm)"
      by (simp add: ranks_member)
    then have "(1 :: PEID) = ROOT"
      using a by (simp add: list_all_iff)
    then show False
      by (simp add: ROOT_def)
  qed
next
  assume "Comm_size comm \<le> 1"
  then have "r = 0" if "r < Comm_size comm" for r
    using that by unat_arith
  then show "list_all (\<lambda>r. r = ROOT) (ranks comm)"
    by (simp add: list_all_iff ranks_member ROOT_def)
qed

lemma append_turns_stuck:
  assumes "pe < Comm_size comm" and "\<not> list_all arrived (ranks comm)"
  shows "append_turns comm arrived fs filename es pe = Inl CollectiveMismatch"
  using assms by (subst append_turns.simps) (simp add: MPI_Barrier_def Let_def)

lemma append_turns_after:
  "list_all arrived (ranks comm) \<Longrightarrow> Comm_rank comm < pe \<Longrightarrow>
     append_turns comm arrived fs filename es pe = Inr fs"
proof (induction comm arrived fs filename es pe rule: append_turns.induct)
  case (1 comm arrived fs filename edges pe)
  show ?case
  proof (cases "pe < Comm_size comm")
    case True
    have ne: "pe \<noteq> Comm_rank comm"
      using "1.prems" by auto
    have "pe < pe + 1"
      using True by unat_arith
    then have "Comm_rank comm < pe + 1"
      using "1.prems" by simp
    then have "append_turns comm arrived fs filename edges (pe + 1) = Inr fs"
      using "1.IH" [OF True refl, of "()"] ne "1.prems"(1) by (simp add: MPI_Barrier_def)
    then show ?thesis
      using True ne "1.prems"(1) by (subst append_turns.simps) (simp add: MPI_Barrier_def)
  next
    case False
    then show ?thesis
      by (subst append_turns.simps) simp
  qed
qed

lemma append_turns_own:
  "list_all arrived (ranks comm) \<Longrightarrow> pe \<le> Comm_rank comm \<Longrightarrow>
     Comm_rank comm < Comm_size comm \<Longrightarrow>
     append_turns comm arrived fs filename es pe = Inr (AppendBinaryEdgeList fs filename es)"
proof (induction comm arrived fs filename es pe rule: append_turns.induct)
  case (1 comm arrived fs filename edges pe)
  have lt: "pe < Comm_size comm"
    using "1.prems" by simp
  have inc: "pe < pe + 1"
    using lt by unat_arith
  show ?case
  proof (cases "pe = Comm_rank comm")
    case True
    then have "Comm_rank comm < pe + 1"
      using inc by simp
    then show ?thesis
      using lt True "1.prems"(1)
      by (subst append_turns.simps) (simp add: append_turns_after MPI_Barrier_def)
  next
    case False
    then have "pe + 1 \<le> Comm_rank comm"
      using "1.prems"(2) by (simp add: inc_le)
    then have "append_turns comm arrived fs filename edges (pe + 1)
        = Inr (AppendBinaryEdgeList fs filename edges)"
      using "1.IH" [OF lt refl, of "()"] "1.prems" False by (simp add: MPI_Barrier_def)
    then show ?thesis
      using lt False "1.prems"(1) by (subst append_turns.simps) (simp add: MPI_Barrier_def)
  qed
qed

text \<open>
  What a call that completes leaves in the file: the header words are the second
  component of the last participant's vertex range (its first invalid node, the number
  of nodes) and the number of edges, summed over the participants for a single file
  and the local one otherwise; the edge records follow.
\<close>

lemma AppendBinaryEdgeListHeader_all:
  assumes "list_all entered (ranks comm)"
  shows "AppendBinaryEdgeListHeader comm entered fs filename single_file es vertex_range
     = Inr (fs(filename \<mapsto> contents fs filename
         @ [if Comm_size comm - 1 = Comm_rank comm then snd vertex_range
            else snd (peer_range comm (Comm_size comm - 1)),
            if single_file
            then sum_list (map (\<lambda>r. if r = Comm_rank comm then of_nat (length es)
                                     else of_nat (length (peer_edges comm r))) (ranks comm))
            else of_nat (length es)]))"
  using assms
  by (simp add: AppendBinaryEdgeListHeader_def FindNumberOfGlobalNodes_def
      FindNumberOfGlobalEdges_def MPI_Bcast_def MPI_Allreduce_SUM_def Let_def)

lemma AppendBinaryEdgeListHeader_mismatch:
  assumes "\<not> list_all entered (ranks comm)"
  shows "AppendBinaryEdgeListHeader comm entered fs filename single_file es vertex_range
     = Inl CollectiveMismatch"
  using assms
  by (simp add: AppendBinaryEdgeListHeader_def FindNumberOfGlobalNodes_def MPI_Bcast_def Let_def)

lemma WriteBinaryEdgeList_own_file:
  "\<exists>fs'. WriteBinaryEdgeList comm fs filename omit_header False es vertex_range = Inr fs'
     \<and> contents fs' (filename @ ''_'' @ to_string (Comm_rank comm))
       = (if omit_header then []
          else [if Comm_size comm - 1 = Comm_rank comm then snd vertex_range
                else snd (peer_range comm (Comm_size comm - 1)),
                of_nat (length es)])
         @ concat (map (\<lambda>(u, v). [u + 1, v + 1]) es)"
proof -
  have "list_all (\<lambda>r. True) (ranks comm)"
    by (simp add: list_all_iff)
  then show ?thesis
    by (simp add: WriteBinaryEdgeList_def Let_def AppendBinaryEdgeListHeader_all
        AppendBinaryEdgeList_contents CreateFile_contents contents_upd)
qed

lemma WriteBinaryEdgeList_single_file:
  "WriteBinaryEdgeList comm fs filename omit_header True es vertex_range
     = (case (if Comm_rank comm = ROOT
              then if \<not> omit_header
                   then AppendBinaryEdgeListHeader comm (\<lambda>r. r = ROOT) (CreateFile fs filename)
                          filename True es vertex_range
                   else Inr (CreateFile fs filename)
              else Inr fs) of
          Inl e \<Rightarrow> Inl e
        | Inr fs \<Rightarrow>
            append_turns comm
              (\<lambda>r. if r = ROOT then omit_header \<or> list_all (\<lambda>r. r = ROOT) (ranks comm) else True)
              fs filename es 0)"
  by (simp only: WriteBinaryEdgeList_def Let_def if_True)

lemma WriteBinaryEdgeList_single_participant:
  assumes "Comm_rank comm = ROOT" and "Comm_size comm = 1"
  shows "\<exists>fs'. WriteBinaryEdgeList comm fs filename omit_header True es vertex_range = Inr fs'
     \<and> contents fs' filename
       = (if omit_header then [] else [snd vertex_range, of_nat (length es)])
         @ concat (map (\<lambda>(u, v). [u + 1, v + 1]) es)"
proof -
  define arrived
    where "arrived = (\<lambda>r. if r = ROOT then omit_header \<or> list_all (\<lambda>r. r = ROOT) (ranks comm) else True)"
  have r: "ranks comm = [0]"
    using assms(2) by (rule ranks_single)
  have a: "list_all (\<lambda>r. r = ROOT) (ranks comm)"
    by (simp add: r ROOT_def)
  then have b: "list_all arrived (ranks comm)"
    by (simp add: list_all_iff arrived_def)
  have lt: "Comm_rank comm < Comm_size comm"
    using assms by (simp add: ROOT_def)
  have t: "append_turns comm arrived fs0 filename es 0
      = Inr (AppendBinaryEdgeList fs0 filename es)" for fs0
    by (rule append_turns_own [OF b _ lt]) simp
  have last: "Comm_size comm - 1 = Comm_rank comm"
    using assms by (simp add: ROOT_def)
  have w: "WriteBinaryEdgeList comm fs filename omit_header True es vertex_range
     = (case (if Comm_rank comm = ROOT
              then if \<not> omit_header
                   then AppendBinaryEdgeListHeader comm (\<lambda>r. r = ROOT) (CreateFile fs filename)
                          filename True es vertex_range
                   else Inr (CreateFile fs filename)
              else Inr fs) of
          Inl e \<Rightarrow> Inl e
        | Inr fs \<Rightarrow> append_turns comm arrived fs filename es 0)"
    unfolding arrived_def by (rule WriteBinaryEdgeList_single_file)
  show ?thesis
  proof (cases omit_header)
    case True
    have "WriteBinaryEdgeList comm fs filename omit_header True es vertex_range
        = Inr (AppendBinaryEdgeList (CreateFile fs filename) filename es)"
      unfolding w using assms(1) True by (simp add: t)
    then show ?thesis
      using True by (simp add: AppendBinaryEdgeList_contents CreateFile_contents)
  next
    case False
    have h: "AppendBinaryEdgeListHeader comm (\<lambda>r. r = ROOT) (CreateFile fs filename)
          filename True es vertex_range
        = Inr ((CreateFile fs filename)(filename \<mapsto> [snd vertex_range, of_nat (length es)]))"
      unfolding AppendBinaryEdgeListHeader_all [OF a] using assms(1)
      by (simp add: last r CreateFile_contents ROOT_def)
    have "WriteBinaryEdgeList comm fs filename omit_header True es vertex_range
        = Inr (AppendBinaryEdgeList
            ((CreateFile fs filename)(filename \<mapsto> [snd vertex_range, of_nat (length es)]))
            filename es)"
      unfolding w using assms(1) False by (simp add: h t)
    then show ?thesis
      using False by (simp add: AppendBinaryEdgeList_contents contents_upd)
  qed
qed

lemma WriteBinaryEdgeList_no_header:
  assumes "Comm_rank comm = ROOT" and "Comm_rank comm < Comm_size comm"
  shows "\<exists>fs'. WriteBinaryEdgeList comm fs filename True True es vertex_range = Inr fs'
     \<and> contents fs' filename = concat (map (\<lambda>(u, v). [u + 1, v + 1]) es)"
proof -
  define arrived
    where "arrived = (\<lambda>r. if r = ROOT then True \<or> list_all (\<lambda>r. r = ROOT) (ranks comm) else True)"
  have b: "list_all arrived (ranks comm)"
    by (simp add: list_all_iff arrived_def)
  have t: "append_turns comm arrived fs0 filename es 0
      = Inr (AppendBinaryEdgeList fs0 filename es)" for fs0
    by (rule append_turns_own [OF b _ assms(2)]) simp
  have w: "WriteBinaryEdgeList comm fs filename True True es vertex_range
     = (case (if Comm_rank comm = ROOT
              then if \<not> True
                   then AppendBinaryEdgeListHeader comm (\<lambda>r. r = ROOT) (CreateFile fs filename)
                          filename True es vertex_range
                   else Inr (CreateFile fs filename)
              else Inr fs) of
          Inl e \<Rightarrow> Inl e
        | Inr fs \<Rightarrow> append_turns comm arrived fs filename es 0)"
    unfolding arrived_def by (rule WriteBinaryEdgeList_single_file)
  have "WriteBinaryEdgeList comm fs filename True True es vertex_range
      = Inr (AppendBinaryEdgeList (CreateFile fs filename) filename es)"
    using assms(1) by (simp add: w t)
  then show ?thesis
    by (simp add: AppendBinaryEdgeList_contents CreateFile_contents)
qed

lemma WriteBinaryEdgeList_mismatch:
  assumes "1 < Comm_size comm"
  shows "WriteBinaryEdgeList comm fs filename False True es vertex_range
           = Inl CollectiveMismatch"
proof -
  define arrived
    where "arrived = (\<lambda>r. if r = ROOT then False \<or> list_all (\<lambda>r. r = ROOT) (ranks comm) else True)"
  have a: "\<not> list_all (\<lambda>r. r = ROOT) (ranks comm)"
    using assms by (simp add: only_root)
  have lt: "0 < Comm_size comm"
    using assms by (simp add: word_less_nat_alt)
  then have "ROOT \<in> set (ranks comm)"
    by (simp add: ranks_member ROOT_def)
  then have b: "\<not> list_all arrived (ranks comm)"
    using a by (auto simp add: list_all_iff arrived_def)
  have t: "append_turns comm arrived fs0 filename es 0 = Inl CollectiveMismatch" for fs0
    by (rule append_turns_stuck [OF lt b])
  have w: "WriteBinaryEdgeList comm fs filename False True es vertex_range
     = (case (if Comm_rank comm = ROOT
              then if \<not> False
                   then AppendBinaryEdgeListHeader comm (\<lambda>r. r = ROOT) (CreateFile fs filename)
                          filename True es vertex_range
                   else Inr (CreateFile fs filename)
              else Inr fs) of
          Inl e \<Rightarrow> Inl e
        | Inr fs \<Rightarrow> append_turns comm arrived fs filename es 0)"
    unfolding arrived_def by (rule WriteBinaryEdgeList_single_file)
  show ?thesis
  proof (cases "Comm_rank comm = ROOT")
    case True
    then show ?thesis
      by (simp add: w AppendBinaryEdgeListHeader_mismatch [OF a])
  next
    case False
    then show ?thesis
      by (simp add: w t)
  qed
qed

text \<open>
  Claim C9. In binary edge-list output each edge \<open>(u, v)\<close> of the local list is written as
  the two words \<open>u + 1\<close> and \<open>v + 1\<close>, in list order, and with the header enabled the two
  words \<open>n\<close> and \<open>m\<close> precede the edge records. For a single file written by more than one
  participant the code does not get there: only the root calls
  \<^verbatim>\<open>AppendBinaryEdgeListHeader\<close>, and with it \<^verbatim>\<open>MPI_Bcast\<close> and \<^verbatim>\<open>MPI_Allreduce\<close>, while the
  other participants are in \<^verbatim>\<open>MPI_Barrier\<close>. With two participants neither the root nor
  the other one completes the call, so no header precedes the records; the branch for
  per-participant files, where everyone makes the call, writes the header \<open>4, 2\<close> and
  the records for the same arguments.
\<close>

theorem single_file_header_mismatch:
  "WriteBinaryEdgeList
     \<lparr>Comm_rank = 0, Comm_size = 2, peer_edges = (\<lambda>r. [(2, 3)]), peer_range = (\<lambda>r. (2, 4))\<rparr>
     Map.empty ''out'' False True [(0, 1), (1, 0)] (0, 2)
     = Inl CollectiveMismatch
   \<and> WriteBinaryEdgeList
     \<lparr>Comm_rank = 1, Comm_size = 2, peer_edges = (\<lambda>r. [(0, 1), (1, 0)]), peer_range = (\<lambda>r. (0, 2))\<rparr>
     Map.empty ''out'' False True [(2, 3)] (2, 4)
     = Inl CollectiveMismatch
   \<and> map_sum id (\<lambda>fs. contents fs (''out'' @ ''_'' @ to_string 0))
       (WriteBinaryEdgeList
          \<lparr>Comm_rank = 0, Comm_size = 2, peer_edges = (\<lambda>r. [(2, 3)]),
             peer_range = (\<lambda>r. (2, 4))\<rparr>
          Map.empty ''out'' False False [(0, 1), (1, 0)] (0, 2))
     = Inr [4, 2, 1, 2, 2, 1]"
  by (simp add: WriteBinaryEdgeList_def AppendBinaryEdgeListHeader_def
      FindNumberOfGlobalNodes_def FindNumberOfGlobalEdges_def MPI_Bcast_def
      MPI_Allreduce_SUM_def MPI_Barrier_def ranks_def ROOT_def Let_def
      append_turns.simps AppendBinaryEdgeList_def CreateFile_def contents_def
      upt_conv_Cons)

section \<open>Running the generator on concrete inputs\<close>


section \<open>Configuration checks\<close>






section \<open>Self-loops\<close>















lemma NeighborVertex_unfold:
  fixes v :: SInt
  assumes "Decode g c = (cx, cy, cz)" and "\<not> periodic (config g)"
  defines "loc \<equiv> v - OffsetForChunk g c"
  defines "xs \<equiv> chunk_xs g cx" and "ys \<equiv> chunk_ys g cy" and "zs \<equiv> chunk_zs g cz"
  defines "lx \<equiv> loc mod xs" and "ly \<equiv> (loc div xs) mod ys" and "lz \<equiv> loc div (xs * ys)"
  shows "NeighborVertex g c v direction =
     (if IsLocalVertex (lx + DirectionX direction) (ly + DirectionY direction)
           (lz + DirectionZ direction) xs ys zs
      then Some (OffsetForChunk g c
                  + ((lx + DirectionX direction) + (ly + DirectionY direction) * xs
                      + (lz + DirectionZ direction) * (xs * ys)))
      else if \<not> IsValidChunk g (cx + DirectionX direction) (cy + DirectionY direction)
                  (cz + DirectionZ direction)
      then None
      else Some (LocateVertexInChunk g
                   (Encode g (cx + DirectionX direction) (cy + DirectionY direction)
                      (cz + DirectionZ direction))
                   lx ly lz direction))"
  by (simp add: NeighborVertex_def assms Let_def)













text \<open>
  The neighbour that a query hands to \<^verbatim>\<open>GenerateEdge\<close> differs from the vertex: inside the
  chunk it is the vertex moved by one step; in a neighbouring chunk it lies in another
  chunk's range; on a periodic grid the query may wrap around to the first or last chunk
  of the axis, or, with one chunk per dimension, to the other end of the same chunk.
\<close>

lemma sint_nonneg:
  fixes x :: SInt
  assumes "unat x < 2 ^ 63"
  shows "\<not> sint x < 0"
proof -
  have "int (unat x) < int (2 ^ 63)"
    using assms by (simp only: of_nat_less_iff)
  then have "uint x < 2 ^ 63"
    by (simp only: uint_nat) simp
  moreover have "0 \<le> uint x"
    by (rule uint_ge_0)
  then have "- (2 ^ 63) \<le> uint x"
    by (rule order_trans [rotated]) simp
  ultimately have "signed_take_bit 63 (uint x) = uint x"
    by (intro signed_take_bit_int_eq_self)
  moreover have "sint x = signed_take_bit 63 (uint x)"
    using sint_uint [of x] by simp
  ultimately have "sint x = uint x"
    by (simp only:)
  then show ?thesis
    using \<open>0 \<le> uint x\<close> by linarith
qed







lemma axis_extent_le:
  assumes "0 < D"
  shows "axis_extent T D i \<le> T"
proof (cases "i < T mod D")
  case False
  then show ?thesis
    by (simp add: axis_extent_def)
next
  case True
  then have m: "0 < T mod D"
    by simp
  then have "D \<noteq> 1"
    by auto
  then have "2 \<le> D"
    using assms by simp
  then have "2 * (T div D) \<le> D * (T div D)"
    by (intro mult_le_mono1)
  moreover have "D * (T div D) + T mod D = T"
    by simp
  ultimately have "2 * (T div D) + 1 \<le> T"
    using m by linarith
  then show ?thesis
    using True by (simp add: axis_extent_def)
qed








lemma in_range:
  fixes t s :: SInt
  assumes "unat t < unat s" and "unat s < 2 ^ 63"
  shows "\<not> (sint t < 0 \<or> s \<le> t)"
proof -
  have "unat t < 2 ^ 63"
    using assms by linarith
  then have "\<not> sint t < 0"
    by (rule sint_nonneg)
  then show ?thesis
    using assms(1) by (simp add: word_le_nat_alt)
qed











end
